theory Spec2Isabelle
  imports Complex_Main "HOL-Library.Word" "HOL-Library.Log_Nat"
begin

section \<open>Single-precision arithmetic\<close>

text \<open>
  The generators compute with C \<^verbatim>\<open>float\<close> (IEEE-754 binary32).  A float is modelled by
  the rational number it denotes; every operation computes the exact rational result and
  rounds it to the nearest binary32 value, ties to even.  Overflow to infinity is left out:
  no value of this program comes near \<open>2^128\<close>.
\<close>

type_synonym float32 = rat

definition ilog2 :: "rat \<Rightarrow> int" where
  "ilog2 x =
     (let a = bitlen (fst (quotient_of x)) - bitlen (snd (quotient_of x))
      in if 2 powi a \<le> x then a else a - 1)"

definition round_ties_even :: "rat \<Rightarrow> int" where
  "round_ties_even y =
     (let f = \<lfloor>y\<rfloor>; d = y - of_int f
      in if d < 1 / 2 then f
         else if 1 / 2 < d then f + 1
         else if even f then f else f + 1)"

definition f32_round :: "rat \<Rightarrow> float32" where
  "f32_round x =
     (if x = 0 then 0
      else let e = max (ilog2 \<bar>x\<bar>) (- 126); u = 2 powi (e - 23)
           in of_int (round_ties_even (x / u)) * u)"

definition f32_add :: "float32 \<Rightarrow> float32 \<Rightarrow> float32" where
  "f32_add x y = f32_round (x + y)"

definition f32_sub :: "float32 \<Rightarrow> float32 \<Rightarrow> float32" where
  "f32_sub x y = f32_round (x - y)"

definition f32_div :: "float32 \<Rightarrow> float32 \<Rightarrow> float32" where
  "f32_div x y = f32_round (x / y)"

definition f32_of_uint32 :: "32 word \<Rightarrow> float32" where
  "f32_of_uint32 w = f32_round (of_nat (unat w))"

text \<open>Conversion of a float to an integer type truncates towards zero.\<close>

definition f32_to_int :: "float32 \<Rightarrow> int" where
  "f32_to_int x = (if 0 \<le> x then \<lfloor>x\<rfloor> else \<lceil>x\<rceil>)"

section \<open>Telemetry packets\<close>

text \<open>
  Modelled from the spec: the packet types are declared in \<^verbatim>\<open>telemetry_storage.h\<close>,
  which is not among the sources.  The header fields follow the data model of the
  specification: the kind, a tick count, a 16-bit wrapping sequence number and a small
  integer priority.  The payload variants have the fields the generators assign; a field
  holds the value of the assigned expression in the C type of that expression: unsigned
  32-bit values as \<open>32 word\<close> (the uptime fields are printed with \<^verbatim>\<open>%lu\<close>), integer
  constants and the temperatures printed with \<^verbatim>\<open>%d\<close> as \<open>int\<close>, floats as \<open>float32\<close>.
\<close>

datatype telemetry_type =
    TELEM_SYSTEM_STATUS
  | TELEM_POWER_DATA
  | TELEM_TEMPERATURE_DATA
  | TELEM_COMMUNICATION_STATUS

record telemetry_header =
  type :: telemetry_type
  timestamp :: "32 word"
  sequence :: "16 word"
  priority :: int

record system_status_telem =
  uptime_seconds :: "32 word"
  system_mode :: int
  cpu_usage :: int
  stack_high_water :: "32 word"
  heap_free :: "32 word"
  task_count :: "32 word"
  error_count :: int

record power_telem =
  battery_voltage :: float32
  battery_temperature :: int
  battery_current :: float32
  solar_panel_voltage :: float32
  solar_panel_current :: float32
  battery_level :: "32 word"
  power_state :: int

record temperature_telem =
  obc_temperature :: int
  comms_temperature :: int
  payload_temperature :: int
  battery_temperature :: int
  external_temperature :: int

record subsystem_status_telem =
  comms_status :: int
  adcs_status :: int
  payload_status :: int
  power_status :: int
  comms_uptime :: "32 word"
  payload_uptime :: "32 word"
  last_command_id :: int
  command_success_rate :: int

datatype telemetry_payload =
    System system_status_telem
  | Power power_telem
  | Temperature temperature_telem
  | Subsystems subsystem_status_telem

record telemetry_packet =
  header :: telemetry_header
  payload :: telemetry_payload

section \<open>The platform and the configuration\<close>

text \<open>
  What one step of a task reads from the platform: the tick count, the FreeRTOS and
  ESP-IDF introspection calls, and the successive draws of \<^verbatim>\<open>esp_random()\<close>
  (\<open>esp_random inp k\<close> is the \<open>k\<close>-th draw of the step).
\<close>

record inputs =
  xTaskGetTickCount :: "32 word"
  uxTaskGetStackHighWaterMark :: "32 word"
  esp_get_free_heap_size :: "32 word"
  uxTaskGetNumberOfTasks :: "32 word"
  esp_random :: "nat \<Rightarrow> 32 word"

text \<open>
  The build configuration: whether \<^verbatim>\<open>WOKWI\<close> is defined, and the capacity of the packet
  queue, a constant of the storage module.
\<close>

record config =
  WOKWI :: bool
  queue_capacity :: nat

datatype task = Collector | Processor | Transmitter

text \<open>
  The calls a task makes to the storage module and to the scheduler, in the order in which
  they happen, and the Transmitter's announcement that it opens its contact window.  A
  delay carries the milliseconds handed to \<^verbatim>\<open>pdMS_TO_TICKS\<close>.
\<close>

datatype event =
    Storage_init
  | Store_call telemetry_packet bool
  | Retrieve_call task "telemetry_packet option"
  | Delay task nat
  | Delay_until task nat
  | Contact_window_open

datatype collector_pc =
    Collector_init
  | Collector_system
  | Collector_power
  | Collector_temperature
  | Collector_subsystem
  | Collector_delay

datatype transmitter_pc = Transmitter_poll | Transmitter_drain

text \<open>
  The state of the whole program: the two static counters of the generators, the packet
  queue, the local variables of the three tasks and the place each task is at.
  \<open>poll_tick\<close> is the tick count the Transmitter read at the head of its current
  iteration, and \<open>trace\<close> the history of calls made so far.
\<close>

record world =
  sequence_number :: "16 word"
  system_uptime :: "32 word"
  queue :: "telemetry_packet list"
  collector_at :: collector_pc
  processed_count :: "32 word"
  transmitter_at :: transmitter_pc
  ground_station_available :: bool
  transmission_count :: "32 word"
  poll_tick :: "32 word"
  trace :: "event list"

section \<open>The packet queue\<close>

text \<open>
  Modelled from the spec: the storage module (\<^verbatim>\<open>telemetry_storage_init\<close>,
  \<^verbatim>\<open>telemetry_store_packet\<close>, \<^verbatim>\<open>telemetry_retrieve_packet\<close>,
  \<^verbatim>\<open>telemetry_available_packets\<close>) is not among the sources.  The specification gives its
  contract: a bounded FIFO queue; \<open>init\<close> establishes the empty queue; \<open>store\<close> reports
  success or failure, and on a full queue the packet is not retained and the occupancy
  stays at the capacity; \<open>retrieve\<close> removes and returns the oldest packet or reports
  empty; \<open>available_count\<close> is the current occupancy.  Each call is atomic.
\<close>

definition telemetry_storage_init :: "world \<Rightarrow> world" where
  "telemetry_storage_init s = s\<lparr>queue := [], trace := trace s @ [Storage_init]\<rparr>"

definition telemetry_store_packet :: "config \<Rightarrow> telemetry_packet \<Rightarrow> world \<Rightarrow> world" where
  "telemetry_store_packet cfg p s =
     (if length (queue s) < queue_capacity cfg
      then s\<lparr>queue := queue s @ [p], trace := trace s @ [Store_call p True]\<rparr>
      else s\<lparr>trace := trace s @ [Store_call p False]\<rparr>)"

definition telemetry_retrieve_packet :: "task \<Rightarrow> world \<Rightarrow> telemetry_packet option \<times> world" where
  "telemetry_retrieve_packet who s =
     (case queue s of
        [] \<Rightarrow> (None, s\<lparr>trace := trace s @ [Retrieve_call who None]\<rparr>)
      | p # q \<Rightarrow> (Some p, s\<lparr>queue := q, trace := trace s @ [Retrieve_call who (Some p)]\<rparr>))"

definition telemetry_available_packets :: "world \<Rightarrow> nat" where
  "telemetry_available_packets s = length (queue s)"

section \<open>The generators (telemetry\_generators.c)\<close>

definition read_virtual_voltage :: "32 word \<Rightarrow> float32" where
  "read_virtual_voltage r =
     f32_add (f32_round (33 / 10)) (f32_div (f32_of_uint32 (r mod 200)) 1000)"

definition read_virtual_temperature :: "32 word \<Rightarrow> float32" where
  "read_virtual_temperature r =
     f32_add 25 (f32_div (f32_of_uint32 (r mod 150)) 10)"

definition generate_system_telemetry :: "config \<Rightarrow> inputs \<Rightarrow> world \<Rightarrow> world" where
  "generate_system_telemetry cfg inp s =
     (let system_telem =
            \<lparr>header = \<lparr>type = TELEM_SYSTEM_STATUS,
                       timestamp = xTaskGetTickCount inp,
                       sequence = sequence_number s,
                       priority = 1\<rparr>,
             payload = System
                \<lparr>uptime_seconds = system_uptime s,
                 system_mode = 1,
                 cpu_usage = 0,
                 stack_high_water = uxTaskGetStackHighWaterMark inp,
                 heap_free = esp_get_free_heap_size inp,
                 task_count = uxTaskGetNumberOfTasks inp,
                 error_count = 0\<rparr>\<rparr>;
          s1 = s\<lparr>sequence_number := sequence_number s + 1,
                 system_uptime := system_uptime s + 1\<rparr>
      in telemetry_store_packet cfg system_telem s1)"

definition generate_power_telemetry :: "config \<Rightarrow> inputs \<Rightarrow> world \<Rightarrow> world" where
  "generate_power_telemetry cfg inp s =
     (let power_telem =
            \<lparr>header = \<lparr>type = TELEM_POWER_DATA,
                       timestamp = xTaskGetTickCount inp,
                       sequence = sequence_number s,
                       priority = 2\<rparr>,
             payload = Power
                \<lparr>battery_voltage =
                   (if WOKWI cfg then read_virtual_voltage (esp_random inp 0)
                    else f32_round (33 / 10)),
                 power_telem.battery_temperature =
                   (if WOKWI cfg then f32_to_int (read_virtual_temperature (esp_random inp 1))
                    else 25),
                 battery_current = f32_round (1 / 10),
                 solar_panel_voltage = f32_round 5,
                 solar_panel_current = f32_round (1 / 2),
                 battery_level = 85 - system_uptime s div 3600,
                 power_state = 0\<rparr>\<rparr>;
          s1 = s\<lparr>sequence_number := sequence_number s + 1\<rparr>
      in telemetry_store_packet cfg power_telem s1)"

definition generate_temperature_telemetry :: "config \<Rightarrow> inputs \<Rightarrow> world \<Rightarrow> world" where
  "generate_temperature_telemetry cfg inp s =
     (let temp_telem =
            \<lparr>header = \<lparr>type = TELEM_TEMPERATURE_DATA,
                       timestamp = xTaskGetTickCount inp,
                       sequence = sequence_number s,
                       priority = 1\<rparr>,
             payload = Temperature
                (if WOKWI cfg then
                   \<lparr>obc_temperature =
                      f32_to_int (read_virtual_temperature (esp_random inp 0)),
                    comms_temperature =
                      f32_to_int (f32_sub (read_virtual_temperature (esp_random inp 1)) 5),
                    payload_temperature =
                      f32_to_int (f32_add (read_virtual_temperature (esp_random inp 2)) 3),
                    battery_temperature =
                      f32_to_int (read_virtual_temperature (esp_random inp 3)),
                    external_temperature =
                      f32_to_int (f32_sub (read_virtual_temperature (esp_random inp 4)) 10)\<rparr>
                 else
                   \<lparr>obc_temperature = 35,
                    comms_temperature = 28,
                    payload_temperature = 25,
                    battery_temperature = 22,
                    external_temperature = - 15\<rparr>)\<rparr>;
          s1 = s\<lparr>sequence_number := sequence_number s + 1\<rparr>
      in telemetry_store_packet cfg temp_telem s1)"

definition generate_subsystem_telemetry :: "config \<Rightarrow> inputs \<Rightarrow> world \<Rightarrow> world" where
  "generate_subsystem_telemetry cfg inp s =
     (let subsys_telem =
            \<lparr>header = \<lparr>type = TELEM_COMMUNICATION_STATUS,
                       timestamp = xTaskGetTickCount inp,
                       sequence = sequence_number s,
                       priority = 1\<rparr>,
             payload = Subsystems
                \<lparr>comms_status = 1,
                 adcs_status = 1,
                 payload_status = 1,
                 power_status = 1,
                 comms_uptime = system_uptime s,
                 payload_uptime = system_uptime s - 100,
                 last_command_id = 0x25,
                 command_success_rate = 98\<rparr>\<rparr>;
          s1 = s\<lparr>sequence_number := sequence_number s + 1\<rparr>
      in telemetry_store_packet cfg subsys_telem s1)"

section \<open>The tasks (telemetry\_tasks.c)\<close>

text \<open>
  Each task is a machine that makes one atomic step at a time; the scheduler chooses which
  task steps next.  A step holds at most one call that touches the queue, so every
  interleaving of the tasks' queue calls is a schedule.  Of the \<^verbatim>\<open>printf\<close> lines only
  the announcement of the contact window is kept, as an event.

  The Collector: \<^verbatim>\<open>telemetry_storage_init()\<close>, then for ever the four generators in turn
  and \<^verbatim>\<open>vTaskDelayUntil(&xLastWakeTime, pdMS_TO_TICKS(5000))\<close>.  The wake time that
  \<^verbatim>\<open>vTaskDelayUntil\<close> advances belongs to the scheduler's timing; the model records the
  call and its period.
\<close>

definition collector_step :: "config \<Rightarrow> inputs \<Rightarrow> world \<Rightarrow> world" where
  "collector_step cfg inp s =
     (case collector_at s of
        Collector_init \<Rightarrow>
          (telemetry_storage_init s)\<lparr>collector_at := Collector_system\<rparr>
      | Collector_system \<Rightarrow>
          (generate_system_telemetry cfg inp s)\<lparr>collector_at := Collector_power\<rparr>
      | Collector_power \<Rightarrow>
          (generate_power_telemetry cfg inp s)\<lparr>collector_at := Collector_temperature\<rparr>
      | Collector_temperature \<Rightarrow>
          (generate_temperature_telemetry cfg inp s)\<lparr>collector_at := Collector_subsystem\<rparr>
      | Collector_subsystem \<Rightarrow>
          (generate_subsystem_telemetry cfg inp s)\<lparr>collector_at := Collector_delay\<rparr>
      | Collector_delay \<Rightarrow>
          s\<lparr>collector_at := Collector_system,
            trace := trace s @ [Delay_until Collector 5000]\<rparr>)"

text \<open>
  The Processor: one step is one iteration of its loop, a retrieve followed by the count
  or by the idle delay.
\<close>

definition processor_step :: "world \<Rightarrow> world" where
  "processor_step s =
     (case telemetry_retrieve_packet Processor s of
        (Some packet, s1) \<Rightarrow> s1\<lparr>processed_count := processed_count s1 + 1\<rparr>
      | (None, s1) \<Rightarrow> s1\<lparr>trace := trace s1 @ [Delay Processor 1000]\<rparr>)"

text \<open>
  The Transmitter.  At \<open>Transmitter_poll\<close> a step runs the head of an iteration: the
  gate test on the tick count and, with the gate open, the occupancy read; with no burst
  to send it also runs the tail (gate closed, poll delay).  At \<open>Transmitter_drain\<close> a
  step is one evaluation of the \<^verbatim>\<open>while\<close> condition: a retrieve, followed by the loop
  body or, on empty, by the tail of the iteration.
\<close>

definition transmitter_step :: "inputs \<Rightarrow> world \<Rightarrow> world" where
  "transmitter_step inp s =
     (case transmitter_at s of
        Transmitter_poll \<Rightarrow>
          (let t = xTaskGetTickCount inp;
               s1 = s\<lparr>poll_tick := t\<rparr>;
               s2 = (if (t div 1000) mod 30 = 0
                     then s1\<lparr>ground_station_available := True,
                             trace := trace s1 @ [Contact_window_open]\<rparr>
                     else s1)
           in if ground_station_available s2
              then (let available = telemetry_available_packets s2
                    in if available > 0
                       then s2\<lparr>transmitter_at := Transmitter_drain\<rparr>
                       else s2\<lparr>ground_station_available := False,
                               trace := trace s2 @ [Delay Transmitter 2000]\<rparr>)
              else s2\<lparr>trace := trace s2 @ [Delay Transmitter 2000]\<rparr>)
      | Transmitter_drain \<Rightarrow>
          (case telemetry_retrieve_packet Transmitter s of
             (Some packet, s1) \<Rightarrow>
               s1\<lparr>transmission_count := transmission_count s1 + 1,
                  trace := trace s1 @ [Delay Transmitter 50]\<rparr>
           | (None, s1) \<Rightarrow>
               s1\<lparr>ground_station_available := False,
                  transmitter_at := Transmitter_poll,
                  trace := trace s1 @ [Delay Transmitter 2000]\<rparr>))"

text \<open>A schedule names, step by step, the task that runs and what it reads.\<close>

definition step :: "config \<Rightarrow> task \<times> inputs \<Rightarrow> world \<Rightarrow> world" where
  "step cfg a s =
     (case fst a of
        Collector \<Rightarrow> collector_step cfg (snd a) s
      | Processor \<Rightarrow> processor_step s
      | Transmitter \<Rightarrow> transmitter_step (snd a) s)"

definition run :: "config \<Rightarrow> (task \<times> inputs) list \<Rightarrow> world \<Rightarrow> world" where
  "run cfg sched s = fold (step cfg) sched s"

text \<open>The state at boot: the static initialisers and the initial locals of the tasks.\<close>

definition boot :: world where
  "boot =
     \<lparr>sequence_number = 0,
      system_uptime = 0,
      queue = [],
      collector_at = Collector_init,
      processed_count = 0,
      transmitter_at = Transmitter_poll,
      ground_station_available = False,
      transmission_count = 0,
      poll_tick = 0,
      trace = []\<rparr>"

definition collector_steps :: "config \<Rightarrow> inputs list \<Rightarrow> world \<Rightarrow> world" where
  "collector_steps cfg inps s = fold (collector_step cfg) inps s"

definition transmitter_steps :: "inputs list \<Rightarrow> world \<Rightarrow> world" where
  "transmitter_steps inps s = fold transmitter_step inps s"

text \<open>The history of a burst that drains the packets \<open>q\<close>, before its last retrieve.\<close>

definition burst :: "telemetry_packet list \<Rightarrow> event list" where
  "burst q = concat (map (\<lambda>p. [Retrieve_call Transmitter (Some p), Delay Transmitter 50]) q)"

section \<open>Observations on a history\<close>

text \<open>The store calls of a history with their results, oldest first.\<close>

fun store_calls :: "event list \<Rightarrow> (telemetry_packet \<times> bool) list" where
  "store_calls [] = []"
| "store_calls (Store_call p ok # es) = (p, ok) # store_calls es"
| "store_calls (_ # es) = store_calls es"

text \<open>The packets handed out by retrieve calls, in dequeue order, each with its consumer.\<close>

fun retrieved :: "event list \<Rightarrow> (task \<times> telemetry_packet) list" where
  "retrieved [] = []"
| "retrieved (Retrieve_call who (Some p) # es) = (who, p) # retrieved es"
| "retrieved (_ # es) = retrieved es"

definition stored :: "event list \<Rightarrow> telemetry_packet list" where
  "stored tr = map fst (filter snd (store_calls tr))"

definition retrieved_by :: "task \<Rightarrow> event list \<Rightarrow> telemetry_packet list" where
  "retrieved_by who tr = map snd (filter (\<lambda>x. fst x = who) (retrieved tr))"

definition sequences :: "telemetry_packet list \<Rightarrow> 16 word list" where
  "sequences ps = map (\<lambda>p. sequence (header p)) ps"

text \<open>
  The positions, among all store calls of a history, of the calls that succeeded; and the
  number of store calls made between the \<open>i\<close>-th and the next successful one.
\<close>

definition store_positions :: "event list \<Rightarrow> nat list" where
  "store_positions tr =
     filter (\<lambda>j. snd (store_calls tr ! j)) [0..<length (store_calls tr)]"

definition dropped_between :: "event list \<Rightarrow> nat \<Rightarrow> nat" where
  "dropped_between tr i = store_positions tr ! Suc i - Suc (store_positions tr ! i)"

text \<open>Each element of the list is its predecessor plus one, in 16-bit arithmetic.\<close>

fun successive :: "16 word list \<Rightarrow> bool" where
  "successive [] = True"
| "successive (a # xs) = ((case xs of [] \<Rightarrow> True | b # _ \<Rightarrow> b = a + 1) \<and> successive xs)"

section \<open>Sample configurations, readings and schedules\<close>

definition nominal_config :: config where
  "nominal_config = \<lparr>WOKWI = False, queue_capacity = 4\<rparr>"

definition wokwi_config :: config where
  "wokwi_config = \<lparr>WOKWI = True, queue_capacity = 4\<rparr>"

definition reading :: "32 word \<Rightarrow> inputs" where
  "reading t =
     \<lparr>xTaskGetTickCount = t,
      uxTaskGetStackHighWaterMark = 512,
      esp_get_free_heap_size = 200000,
      uxTaskGetNumberOfTasks = 5,
      esp_random = (\<lambda>k. 1234567 + of_nat k)\<rparr>"

text \<open>The Collector's start-up and its first three generator calls.\<close>

definition first_cycle_head :: "(task \<times> inputs) list" where
  "first_cycle_head = replicate 4 (Collector, reading 10)"

text \<open>
  Two Collector cycles with nobody draining, so that the second cycle finds the queue of
  capacity 4 full; then the Processor drains the queue, the Collector builds the next
  packet and the Processor retrieves it.
\<close>

definition overflow_schedule :: "(task \<times> inputs) list" where
  "overflow_schedule =
     replicate 11 (Collector, reading 10) @ replicate 4 (Processor, reading 20) @
     [(Collector, reading 30), (Processor, reading 40)]"

text \<open>
  A queue of capacity 8, and three Collector cycles with nobody draining, so that the third
  cycle finds the queue full; then the Processor drains the queue, the Collector builds the
  next packet and the Processor retrieves it.
\<close>

definition eight_slot_config :: config where
  "eight_slot_config = \<lparr>WOKWI = False, queue_capacity = 8\<rparr>"

definition third_cycle_schedule :: "(task \<times> inputs) list" where
  "third_cycle_schedule =
     replicate 16 (Collector, reading 10) @ replicate 8 (Processor, reading 20) @
     [(Collector, reading 30), (Processor, reading 40)]"

text \<open>
  The Collector's start-up and first cycle, and the same followed by a poll of the
  Transmitter at tick 0, which opens the contact window.
\<close>

definition first_cycle :: "(task \<times> inputs) list" where
  "first_cycle = replicate 5 (Collector, reading 0)"

definition window_schedule :: "(task \<times> inputs) list" where
  "window_schedule = first_cycle @ [(Transmitter, reading 0)]"

text \<open>
  One Collector cycle, then a contact window at tick 0: the Transmitter's burst and the
  Processor take turns on the queue.
\<close>

definition contact_schedule :: "(task \<times> inputs) list" where
  "contact_schedule =
     replicate 5 (Collector, reading 0) @
     [(Transmitter, reading 0), (Transmitter, reading 1), (Processor, reading 2),
      (Transmitter, reading 60), (Processor, reading 61), (Transmitter, reading 120)]"

section \<open>Invariants of a run\<close>

text \<open>
  Every packet that a store call accepted is either in the queue or has been handed out by
  exactly one retrieve call, in the order of the stores; the two consumers count what they
  retrieved.
\<close>

definition queue_inv :: "world \<Rightarrow> bool" where
  "queue_inv s \<longleftrightarrow>
     map snd (retrieved (trace s)) @ queue s = stored (trace s) \<and>
     processed_count s = of_nat (length (retrieved_by Processor (trace s))) \<and>
     transmission_count s = of_nat (length (retrieved_by Transmitter (trace s))) \<and>
     retrieved_by Collector (trace s) = [] \<and>
     (collector_at s = Collector_init \<longrightarrow> queue s = [])"

text \<open>The \<open>k\<close>-th store call carries sequence number \<open>k\<close>, counted from 0 modulo \<open>2^16\<close>.\<close>

definition seq_inv :: "world \<Rightarrow> bool" where
  "seq_inv s \<longleftrightarrow>
     sequences (map fst (store_calls (trace s))) =
       map of_nat [0..<length (store_calls (trace s))] \<and>
     sequence_number s = of_nat (length (store_calls (trace s)))"

text \<open>
  The first store call of a run finds the queue empty; it fails only if the capacity is 0,
  and then every store call fails.
\<close>

definition first_inv :: "config \<Rightarrow> world \<Rightarrow> bool" where
  "first_inv cfg s \<longleftrightarrow>
     (if 0 < queue_capacity cfg
      then store_calls (trace s) = [] \<or> snd (hd (store_calls (trace s)))
      else list_all (\<lambda>c. \<not> snd c) (store_calls (trace s)))"

text \<open>
  The gate of the Transmitter is closed at the head of every iteration, and during a burst
  it is open and the tick count read at the head of the iteration met the gate condition.
\<close>

definition gate_inv :: "world \<Rightarrow> bool" where
  "gate_inv s \<longleftrightarrow>
     (case transmitter_at s of
        Transmitter_poll \<Rightarrow> \<not> ground_station_available s
      | Transmitter_drain \<Rightarrow>
          ground_station_available s \<and> (poll_tick s div 1000) mod 30 = 0)"

section \<open>Properties of the generators\<close>

lemmas generator_defs =
  generate_system_telemetry_def generate_power_telemetry_def
  generate_temperature_telemetry_def generate_subsystem_telemetry_def

lemma store_packet_effect:
  "trace (telemetry_store_packet cfg p s) =
     trace s @ [Store_call p (length (queue s) < queue_capacity cfg)]"
  "queue (telemetry_store_packet cfg p s) =
     (if length (queue s) < queue_capacity cfg then queue s @ [p] else queue s)"
  "sequence_number (telemetry_store_packet cfg p s) = sequence_number s"
  "system_uptime (telemetry_store_packet cfg p s) = system_uptime s"
  "collector_at (telemetry_store_packet cfg p s) = collector_at s"
  by (simp_all add: telemetry_store_packet_def)

lemma generator_effect:
  "\<exists>p. trace (generate_system_telemetry cfg inp s) =
      trace s @ [Store_call p (length (queue s) < queue_capacity cfg)] \<and>
      type (header p) = TELEM_SYSTEM_STATUS \<and> sequence (header p) = sequence_number s"
  "\<exists>p. trace (generate_power_telemetry cfg inp s) =
      trace s @ [Store_call p (length (queue s) < queue_capacity cfg)] \<and>
      type (header p) = TELEM_POWER_DATA \<and> sequence (header p) = sequence_number s"
  "\<exists>p. trace (generate_temperature_telemetry cfg inp s) =
      trace s @ [Store_call p (length (queue s) < queue_capacity cfg)] \<and>
      type (header p) = TELEM_TEMPERATURE_DATA \<and> sequence (header p) = sequence_number s"
  "\<exists>p. trace (generate_subsystem_telemetry cfg inp s) =
      trace s @ [Store_call p (length (queue s) < queue_capacity cfg)] \<and>
      type (header p) = TELEM_COMMUNICATION_STATUS \<and> sequence (header p) = sequence_number s"
  by (simp_all add: generator_defs Let_def store_packet_effect)

lemma generator_counter:
  "sequence_number (generate_system_telemetry cfg inp s) = sequence_number s + 1"
  "sequence_number (generate_power_telemetry cfg inp s) = sequence_number s + 1"
  "sequence_number (generate_temperature_telemetry cfg inp s) = sequence_number s + 1"
  "sequence_number (generate_subsystem_telemetry cfg inp s) = sequence_number s + 1"
  by (simp_all add: generator_defs Let_def store_packet_effect)

lemma collector_step_at:
  "collector_at s = Collector_init \<Longrightarrow> collector_step cfg inp s =
     (telemetry_storage_init s)\<lparr>collector_at := Collector_system\<rparr>"
  "collector_at s = Collector_system \<Longrightarrow> collector_step cfg inp s =
     (generate_system_telemetry cfg inp s)\<lparr>collector_at := Collector_power\<rparr>"
  "collector_at s = Collector_power \<Longrightarrow> collector_step cfg inp s =
     (generate_power_telemetry cfg inp s)\<lparr>collector_at := Collector_temperature\<rparr>"
  "collector_at s = Collector_temperature \<Longrightarrow> collector_step cfg inp s =
     (generate_temperature_telemetry cfg inp s)\<lparr>collector_at := Collector_subsystem\<rparr>"
  "collector_at s = Collector_subsystem \<Longrightarrow> collector_step cfg inp s =
     (generate_subsystem_telemetry cfg inp s)\<lparr>collector_at := Collector_delay\<rparr>"
  "collector_at s = Collector_delay \<Longrightarrow> collector_step cfg inp s =
     s\<lparr>collector_at := Collector_system, trace := trace s @ [Delay_until Collector 5000]\<rparr>"
  by (simp_all add: collector_step_def)


lemma collector_generates:
  "collector_at s = Collector_system \<Longrightarrow>
     \<exists>p. trace (collector_step cfg inp s) =
       trace s @ [Store_call p (length (queue s) < queue_capacity cfg)] \<and>
       type (header p) = TELEM_SYSTEM_STATUS \<and> sequence (header p) = sequence_number s"
  "collector_at s = Collector_power \<Longrightarrow>
     \<exists>p. trace (collector_step cfg inp s) =
       trace s @ [Store_call p (length (queue s) < queue_capacity cfg)] \<and>
       type (header p) = TELEM_POWER_DATA \<and> sequence (header p) = sequence_number s"
  "collector_at s = Collector_temperature \<Longrightarrow>
     \<exists>p. trace (collector_step cfg inp s) =
       trace s @ [Store_call p (length (queue s) < queue_capacity cfg)] \<and>
       type (header p) = TELEM_TEMPERATURE_DATA \<and> sequence (header p) = sequence_number s"
  "collector_at s = Collector_subsystem \<Longrightarrow>
     \<exists>p. trace (collector_step cfg inp s) =
       trace s @ [Store_call p (length (queue s) < queue_capacity cfg)] \<and>
       type (header p) = TELEM_COMMUNICATION_STATUS \<and> sequence (header p) = sequence_number s"
  using generator_effect [of cfg inp s] by (simp_all add: collector_step_at)

lemma collector_counts:
  "collector_at s = Collector_system \<Longrightarrow>
     sequence_number (collector_step cfg inp s) = sequence_number s + 1 \<and>
     collector_at (collector_step cfg inp s) = Collector_power"
  "collector_at s = Collector_power \<Longrightarrow>
     sequence_number (collector_step cfg inp s) = sequence_number s + 1 \<and>
     collector_at (collector_step cfg inp s) = Collector_temperature"
  "collector_at s = Collector_temperature \<Longrightarrow>
     sequence_number (collector_step cfg inp s) = sequence_number s + 1 \<and>
     collector_at (collector_step cfg inp s) = Collector_subsystem"
  "collector_at s = Collector_subsystem \<Longrightarrow>
     sequence_number (collector_step cfg inp s) = sequence_number s + 1 \<and>
     collector_at (collector_step cfg inp s) = Collector_delay"
  by (simp_all add: collector_step_at generator_counter)


text \<open>
  Claim C6.  Every generator hands exactly one packet to the store operation, and the
  header of that packet carries the generator's own kind, the tick count read at
  generation, the value of the shared sequence counter, and the fixed priority of the
  kind: 1 for SystemStatus, Temperature and SubsystemStatus, 2 for Power.
\<close>

theorem generated_headers:
  "(\<exists>pl ok. trace (generate_system_telemetry cfg inp s) =
      trace s @ [Store_call \<lparr>header = \<lparr>type = TELEM_SYSTEM_STATUS,
        timestamp = xTaskGetTickCount inp, sequence = sequence_number s, priority = 1\<rparr>,
        payload = pl\<rparr> ok]) \<and>
   (\<exists>pl ok. trace (generate_power_telemetry cfg inp s) =
      trace s @ [Store_call \<lparr>header = \<lparr>type = TELEM_POWER_DATA,
        timestamp = xTaskGetTickCount inp, sequence = sequence_number s, priority = 2\<rparr>,
        payload = pl\<rparr> ok]) \<and>
   (\<exists>pl ok. trace (generate_temperature_telemetry cfg inp s) =
      trace s @ [Store_call \<lparr>header = \<lparr>type = TELEM_TEMPERATURE_DATA,
        timestamp = xTaskGetTickCount inp, sequence = sequence_number s, priority = 1\<rparr>,
        payload = pl\<rparr> ok]) \<and>
   (\<exists>pl ok. trace (generate_subsystem_telemetry cfg inp s) =
      trace s @ [Store_call \<lparr>header = \<lparr>type = TELEM_COMMUNICATION_STATUS,
        timestamp = xTaskGetTickCount inp, sequence = sequence_number s, priority = 1\<rparr>,
        payload = pl\<rparr> ok])"
  by (auto simp: generator_defs telemetry_store_packet_def Let_def)

text \<open>
  Claim C9.  The SubsystemStatus packet carries, as payload uptime, the shared uptime
  counter minus 100 in unsigned 32-bit arithmetic.  There is no floor: while the counter
  is below 100 the stored value is the counter minus 100 plus \<open>2^32\<close>, and it is not zero.
\<close>

theorem payload_uptime_wraps:
  "\<exists>h pl ok. trace (generate_subsystem_telemetry cfg inp s) =
       trace s @ [Store_call \<lparr>header = h, payload = Subsystems pl\<rparr> ok] \<and>
     comms_uptime pl = system_uptime s \<and>
     payload_uptime pl = system_uptime s - 100 \<and>
     (unat (system_uptime s) < 100 \<longrightarrow>
        unat (payload_uptime pl) = unat (system_uptime s) + 2 ^ 32 - 100 \<and>
        payload_uptime pl \<noteq> 0)"
proof -
  have "unat (system_uptime s - 100) = unat (system_uptime s) + 2 ^ 32 - 100"
    and "system_uptime s - 100 \<noteq> 0" if "unat (system_uptime s) < 100"
  proof -
    have "unat (system_uptime s - 100) = (unat (system_uptime s) + 2 ^ 32 - 100) mod 2 ^ 32"
      using that by (simp add: unat_sub_if_size word_size)
    then show u: "unat (system_uptime s - 100) = unat (system_uptime s) + 2 ^ 32 - 100"
      using that by simp
    then have "unat (system_uptime s - 100) \<noteq> 0" by simp
    then show "system_uptime s - 100 \<noteq> 0" by (metis unat_0)
  qed
  then show ?thesis
    by (cases "length (queue s) < queue_capacity cfg")
       (auto simp: generate_subsystem_telemetry_def telemetry_store_packet_def Let_def)
qed

text \<open>
  In the first cycle the counter is 1 when the SubsystemStatus packet is built, and the
  payload uptime is \<open>2^32 - 99\<close>.
\<close>

theorem payload_uptime_wraps_witness:
  "unat (system_uptime (run nominal_config first_cycle_head boot)) < 100 \<and>
   (\<exists>h pl ok.
      trace (generate_subsystem_telemetry nominal_config (reading 10)
               (run nominal_config first_cycle_head boot)) =
        trace (run nominal_config first_cycle_head boot) @
          [Store_call \<lparr>header = h, payload = Subsystems pl\<rparr> ok] \<and>
      unat (payload_uptime pl) = 4294967197)"
proof -
  have u: "system_uptime (run nominal_config first_cycle_head boot) = 1"
    by code_simp
  show ?thesis
    using payload_uptime_wraps [of nominal_config "reading 10"
        "run nominal_config first_cycle_head boot"]
    unfolding u by auto
qed

section \<open>The Collector\<close>

text \<open>
  Claim C2.  One iteration of the Collector's loop, begun at its head, makes exactly four
  store calls and then the periodic delay.  The four packets are of the kinds SystemStatus,
  Power, Temperature, SubsystemStatus, in this order, with successive sequence numbers, and
  each packet has been handed to the store operation when the step that builds the next one
  begins: after \<open>k\<close> steps the history holds the first \<open>k\<close> store calls.
\<close>

theorem collector_cycle:
  "collector_at s = Collector_system \<Longrightarrow>
   \<exists>p1 p2 p3 p4 r1 r2 r3 r4.
     trace (collector_steps cfg [i1] s) = trace s @ [Store_call p1 r1] \<and>
     trace (collector_steps cfg [i1, i2] s) =
       trace s @ [Store_call p1 r1, Store_call p2 r2] \<and>
     trace (collector_steps cfg [i1, i2, i3] s) =
       trace s @ [Store_call p1 r1, Store_call p2 r2, Store_call p3 r3] \<and>
     trace (collector_steps cfg [i1, i2, i3, i4] s) =
       trace s @ [Store_call p1 r1, Store_call p2 r2, Store_call p3 r3, Store_call p4 r4] \<and>
     trace (collector_steps cfg [i1, i2, i3, i4, i5] s) =
       trace s @ [Store_call p1 r1, Store_call p2 r2, Store_call p3 r3, Store_call p4 r4,
                  Delay_until Collector 5000] \<and>
     collector_at (collector_steps cfg [i1, i2, i3, i4, i5] s) = Collector_system \<and>
     map (\<lambda>p. type (header p)) [p1, p2, p3, p4] =
       [TELEM_SYSTEM_STATUS, TELEM_POWER_DATA, TELEM_TEMPERATURE_DATA,
        TELEM_COMMUNICATION_STATUS] \<and>
     sequences [p1, p2, p3, p4] =
       [sequence_number s, sequence_number s + 1, sequence_number s + 2, sequence_number s + 3]"
proof -
  assume at: "collector_at s = Collector_system"
  define s1 where "s1 = collector_step cfg i1 s"
  define s2 where "s2 = collector_step cfg i2 s1"
  define s3 where "s3 = collector_step cfg i3 s2"
  define s4 where "s4 = collector_step cfg i4 s3"
  define s5 where "s5 = collector_step cfg i5 s4"
  have c1: "sequence_number s1 = sequence_number s + 1" "collector_at s1 = Collector_power"
    unfolding s1_def using collector_counts(1) [OF at] by simp_all
  have c2: "sequence_number s2 = sequence_number s1 + 1" "collector_at s2 = Collector_temperature"
    unfolding s2_def using collector_counts(2) [OF c1(2)] by simp_all
  have c3: "sequence_number s3 = sequence_number s2 + 1" "collector_at s3 = Collector_subsystem"
    unfolding s3_def using collector_counts(3) [OF c2(2)] by simp_all
  have c4: "collector_at s4 = Collector_delay"
    unfolding s4_def using collector_counts(4) [OF c3(2)] by simp
  have c5: "trace s5 = trace s4 @ [Delay_until Collector 5000]"
    "collector_at s5 = Collector_system"
    unfolding s5_def by (simp_all add: collector_step_at(6) [OF c4])
  from collector_generates(1) [OF at, of cfg i1]
  obtain p1 r1 where t1: "trace s1 = trace s @ [Store_call p1 r1]"
    and h1: "type (header p1) = TELEM_SYSTEM_STATUS" "sequence (header p1) = sequence_number s"
    unfolding s1_def by blast
  from collector_generates(2) [OF c1(2), of cfg i2]
  obtain p2 r2 where t2: "trace s2 = trace s1 @ [Store_call p2 r2]"
    and h2: "type (header p2) = TELEM_POWER_DATA" "sequence (header p2) = sequence_number s1"
    unfolding s2_def by blast
  from collector_generates(3) [OF c2(2), of cfg i3]
  obtain p3 r3 where t3: "trace s3 = trace s2 @ [Store_call p3 r3]"
    and h3: "type (header p3) = TELEM_TEMPERATURE_DATA" "sequence (header p3) = sequence_number s2"
    unfolding s3_def by blast
  from collector_generates(4) [OF c3(2), of cfg i4]
  obtain p4 r4 where t4: "trace s4 = trace s3 @ [Store_call p4 r4]"
    and h4: "type (header p4) = TELEM_COMMUNICATION_STATUS"
      "sequence (header p4) = sequence_number s3"
    unfolding s4_def by blast
  have steps: "collector_steps cfg [i1] s = s1" "collector_steps cfg [i1, i2] s = s2"
    "collector_steps cfg [i1, i2, i3] s = s3" "collector_steps cfg [i1, i2, i3, i4] s = s4"
    "collector_steps cfg [i1, i2, i3, i4, i5] s = s5"
    by (simp_all add: collector_steps_def s1_def s2_def s3_def s4_def s5_def)
  have seqs: "sequences [p1, p2, p3, p4] =
      [sequence_number s, sequence_number s + 1, sequence_number s + 2, sequence_number s + 3]"
    by (simp add: sequences_def h1 h2 h3 h4 c1 c2 c3)
  have types: "map (\<lambda>p. type (header p)) [p1, p2, p3, p4] =
       [TELEM_SYSTEM_STATUS, TELEM_POWER_DATA, TELEM_TEMPERATURE_DATA,
        TELEM_COMMUNICATION_STATUS]"
    by (simp add: h1 h2 h3 h4)
  have traces: "trace s2 = trace s @ [Store_call p1 r1, Store_call p2 r2]"
    "trace s3 = trace s @ [Store_call p1 r1, Store_call p2 r2, Store_call p3 r3]"
    "trace s4 = trace s @ [Store_call p1 r1, Store_call p2 r2, Store_call p3 r3, Store_call p4 r4]"
    "trace s5 = trace s @ [Store_call p1 r1, Store_call p2 r2, Store_call p3 r3, Store_call p4 r4,
                  Delay_until Collector 5000]"
    by (simp_all add: t1 t2 t3 t4 c5)
  show ?thesis
    unfolding steps
    by (rule exI [of _ p1], rule exI [of _ p2], rule exI [of _ p3], rule exI [of _ p4],
        rule exI [of _ r1], rule exI [of _ r2], rule exI [of _ r3], rule exI [of _ r4])
       (intro conjI t1 traces c5(2) types seqs)
qed

text \<open>The first iteration after start-up.\<close>

theorem collector_cycle_witness:
  "collector_at (run nominal_config [(Collector, reading 0)] boot) = Collector_system \<and>
   (\<exists>p1 p2 p3 p4 r1 r2 r3 r4.
     trace (collector_steps nominal_config [reading 1]
              (run nominal_config [(Collector, reading 0)] boot)) =
       trace (run nominal_config [(Collector, reading 0)] boot) @ [Store_call p1 r1] \<and>
     trace (collector_steps nominal_config [reading 1, reading 2]
              (run nominal_config [(Collector, reading 0)] boot)) =
       trace (run nominal_config [(Collector, reading 0)] boot) @
         [Store_call p1 r1, Store_call p2 r2] \<and>
     trace (collector_steps nominal_config [reading 1, reading 2, reading 3]
              (run nominal_config [(Collector, reading 0)] boot)) =
       trace (run nominal_config [(Collector, reading 0)] boot) @
         [Store_call p1 r1, Store_call p2 r2, Store_call p3 r3] \<and>
     trace (collector_steps nominal_config [reading 1, reading 2, reading 3, reading 4]
              (run nominal_config [(Collector, reading 0)] boot)) =
       trace (run nominal_config [(Collector, reading 0)] boot) @
         [Store_call p1 r1, Store_call p2 r2, Store_call p3 r3, Store_call p4 r4] \<and>
     trace (collector_steps nominal_config
              [reading 1, reading 2, reading 3, reading 4, reading 5]
              (run nominal_config [(Collector, reading 0)] boot)) =
       trace (run nominal_config [(Collector, reading 0)] boot) @
         [Store_call p1 r1, Store_call p2 r2, Store_call p3 r3, Store_call p4 r4,
          Delay_until Collector 5000] \<and>
     collector_at (collector_steps nominal_config
              [reading 1, reading 2, reading 3, reading 4, reading 5]
              (run nominal_config [(Collector, reading 0)] boot)) = Collector_system \<and>
     map (\<lambda>p. type (header p)) [p1, p2, p3, p4] =
       [TELEM_SYSTEM_STATUS, TELEM_POWER_DATA, TELEM_TEMPERATURE_DATA,
        TELEM_COMMUNICATION_STATUS] \<and>
     sequences [p1, p2, p3, p4] =
       [sequence_number (run nominal_config [(Collector, reading 0)] boot),
        sequence_number (run nominal_config [(Collector, reading 0)] boot) + 1,
        sequence_number (run nominal_config [(Collector, reading 0)] boot) + 2,
        sequence_number (run nominal_config [(Collector, reading 0)] boot) + 3])"
proof -
  have h: "collector_at (run nominal_config [(Collector, reading 0)] boot) = Collector_system"
    by code_simp
  show ?thesis
    by (rule conjI [OF h collector_cycle [OF h]])
qed

section \<open>Runs of the three tasks\<close>

lemma store_calls_append: "store_calls (xs @ ys) = store_calls xs @ store_calls ys"
  by (induction xs rule: store_calls.induct) simp_all

lemma retrieved_append: "retrieved (xs @ ys) = retrieved xs @ retrieved ys"
  by (induction xs rule: retrieved.induct) simp_all

lemmas history_simps = store_calls_append retrieved_append stored_def retrieved_by_def

lemma run_snoc: "run cfg (sched @ [a]) s = step cfg a (run cfg sched s)"
  by (simp add: run_def)

lemma run_Nil: "run cfg [] s = s"
  by (simp add: run_def)

lemma queue_inv_boot: "queue_inv boot"
  by (simp add: queue_inv_def boot_def stored_def retrieved_by_def)

lemma queue_inv_collector: "queue_inv s \<Longrightarrow> queue_inv (collector_step cfg inp s)"
  by (cases "collector_at s")
     (auto simp: queue_inv_def collector_step_def generator_defs telemetry_store_packet_def
        telemetry_storage_init_def Let_def history_simps)

lemma queue_inv_processor: "queue_inv s \<Longrightarrow> queue_inv (processor_step s)"
  by (cases "queue s")
     (auto simp: queue_inv_def processor_step_def telemetry_retrieve_packet_def history_simps)

lemma queue_inv_transmitter: "queue_inv s \<Longrightarrow> queue_inv (transmitter_step inp s)"
  by (cases "transmitter_at s"; cases "queue s")
     (auto simp: queue_inv_def transmitter_step_def telemetry_retrieve_packet_def
        telemetry_available_packets_def Let_def history_simps)

lemma queue_inv_step: "queue_inv s \<Longrightarrow> queue_inv (step cfg a s)"
  by (cases "fst a")
     (simp_all add: step_def queue_inv_collector queue_inv_processor queue_inv_transmitter)

lemma queue_inv_run: "queue_inv (run cfg sched boot)"
  by (induction sched rule: rev_induct)
     (simp_all add: run_snoc run_Nil queue_inv_step queue_inv_boot)

lemma seq_inv_boot: "seq_inv boot"
  by (simp add: seq_inv_def boot_def sequences_def)

lemma seq_inv_collector: "seq_inv s \<Longrightarrow> seq_inv (collector_step cfg inp s)"
  by (cases "collector_at s")
     (auto simp: seq_inv_def collector_step_def generator_defs telemetry_store_packet_def
        telemetry_storage_init_def Let_def store_calls_append sequences_def)

lemma seq_inv_processor: "seq_inv s \<Longrightarrow> seq_inv (processor_step s)"
  by (cases "queue s")
     (auto simp: seq_inv_def processor_step_def telemetry_retrieve_packet_def
        store_calls_append sequences_def)

lemma seq_inv_transmitter: "seq_inv s \<Longrightarrow> seq_inv (transmitter_step inp s)"
  by (cases "transmitter_at s"; cases "queue s")
     (auto simp: seq_inv_def transmitter_step_def telemetry_retrieve_packet_def
        telemetry_available_packets_def Let_def store_calls_append sequences_def)

lemma seq_inv_step: "seq_inv s \<Longrightarrow> seq_inv (step cfg a s)"
  by (cases "fst a")
     (simp_all add: step_def seq_inv_collector seq_inv_processor seq_inv_transmitter)

lemma seq_inv_run: "seq_inv (run cfg sched boot)"
  by (induction sched rule: rev_induct)
     (simp_all add: run_snoc run_Nil seq_inv_step seq_inv_boot)

lemma gate_inv_boot: "gate_inv boot"
  by (simp add: gate_inv_def boot_def)

lemma gate_inv_collector: "gate_inv s \<Longrightarrow> gate_inv (collector_step cfg inp s)"
  by (cases "collector_at s")
     (auto simp: gate_inv_def collector_step_def generator_defs telemetry_store_packet_def
        telemetry_storage_init_def Let_def split: transmitter_pc.splits)

lemma gate_inv_processor: "gate_inv s \<Longrightarrow> gate_inv (processor_step s)"
  by (cases "queue s")
     (auto simp: gate_inv_def processor_step_def telemetry_retrieve_packet_def
        split: transmitter_pc.splits)

lemma gate_inv_transmitter: "gate_inv s \<Longrightarrow> gate_inv (transmitter_step inp s)"
  by (cases "transmitter_at s"; cases "queue s")
     (auto simp: gate_inv_def transmitter_step_def telemetry_retrieve_packet_def
        telemetry_available_packets_def Let_def)

lemma gate_inv_step: "gate_inv s \<Longrightarrow> gate_inv (step cfg a s)"
  by (cases "fst a")
     (simp_all add: step_def gate_inv_collector gate_inv_processor gate_inv_transmitter)

lemma gate_inv_run: "gate_inv (run cfg sched boot)"
  by (induction sched rule: rev_induct)
     (simp_all add: run_snoc run_Nil gate_inv_step gate_inv_boot)

lemma first_inv_boot: "first_inv cfg boot"
  by (simp add: first_inv_def boot_def)

lemma first_inv_collector:
  "queue_inv s \<Longrightarrow> first_inv cfg s \<Longrightarrow> first_inv cfg (collector_step cfg inp s)"
  by (cases "collector_at s"; cases "store_calls (trace s)")
     (auto simp: first_inv_def queue_inv_def collector_step_def generator_defs
        telemetry_store_packet_def telemetry_storage_init_def Let_def history_simps
        split: if_splits)

lemma first_inv_processor: "first_inv cfg s \<Longrightarrow> first_inv cfg (processor_step s)"
  by (cases "queue s")
     (auto simp: first_inv_def processor_step_def telemetry_retrieve_packet_def
        store_calls_append)

lemma first_inv_transmitter: "first_inv cfg s \<Longrightarrow> first_inv cfg (transmitter_step inp s)"
  by (cases "transmitter_at s"; cases "queue s")
     (auto simp: first_inv_def transmitter_step_def telemetry_retrieve_packet_def
        telemetry_available_packets_def Let_def store_calls_append)

lemma first_inv_step:
  "queue_inv s \<Longrightarrow> first_inv cfg s \<Longrightarrow> first_inv cfg (step cfg a s)"
  by (cases "fst a")
     (simp_all add: step_def first_inv_collector first_inv_processor first_inv_transmitter)

lemma first_inv_run: "first_inv cfg (run cfg sched boot)"
  by (induction sched rule: rev_induct)
     (simp_all add: run_snoc run_Nil first_inv_step first_inv_boot queue_inv_run)

lemma successive_append_left: "successive (xs @ ys) \<Longrightarrow> successive xs"
proof (induction xs)
  case Nil
  show ?case by simp
next
  case (Cons a xs)
  then show ?case by (cases xs) simp_all
qed

lemma successive_snoc:
  "successive (xs @ [a]) \<longleftrightarrow> successive xs \<and> (xs = [] \<or> a = last xs + 1)"
proof (induction xs)
  case Nil
  show ?case by simp
next
  case (Cons x xs)
  then show ?case by (cases xs) simp_all
qed

lemma successive_upt: "successive (map of_nat [i..<j])"
proof (induction j)
  case 0
  show ?case by simp
next
  case (Suc j)
  show ?case
  proof (cases "i < j")
    case True
    then obtain k where k: "j = Suc k" by (cases j) auto
    have ne: "map of_nat [i..<j] \<noteq> ([] :: 16 word list)" using True by simp
    have "last (map of_nat [i..<j]) = (of_nat (last [i..<j]) :: 16 word)"
      using True by (intro last_map) simp
    also have "last [i..<j] = k" using True k by simp
    finally have l: "last (map of_nat [i..<j]) + 1 = (of_nat j :: 16 word)" by (simp add: k)
    have "map of_nat [i..<Suc j] = map of_nat [i..<j] @ [of_nat j :: 16 word]"
      using True by simp
    then show ?thesis
      using Suc ne l by (simp only: successive_snoc) simp
  next
    case False
    then show ?thesis by (cases "i = j") simp_all
  qed
qed

lemma of_nat_16_inj:
  "a < 65536 \<Longrightarrow> b < 65536 \<Longrightarrow> (of_nat a :: 16 word) = of_nat b \<Longrightarrow> a = b"
  by (simp add: word_of_nat_eq_iff take_bit_nat_eq_self)

lemma successes_first:
  fixes cs :: "(16 word \<times> bool) list"
  shows "map fst cs = map of_nat [0..<length cs] \<Longrightarrow> length cs \<le> 65536 \<Longrightarrow>
         successive (map fst (filter snd cs)) \<Longrightarrow> cs = [] \<or> snd (hd cs) \<Longrightarrow>
         filter snd cs = take (length (filter snd cs)) cs"
proof (induction cs rule: rev_induct)
  case Nil
  show ?case by simp
next
  case (snoc c cs)
  let ?F = "filter snd cs"
  let ?m = "length ?F"
  from snoc.prems(1) have fst_cs: "map fst cs = map of_nat [0..<length cs]"
    and w: "fst c = of_nat (length cs)" by simp_all
  from snoc.prems(2) have len: "length cs < 65536" by simp
  from snoc.prems(4) have hd_cs: "cs = [] \<or> snd (hd cs)" by (cases cs) simp_all
  have m_le: "?m \<le> length cs" by (rule length_filter_le)
  show ?case
  proof (cases "snd c")
    case False
    then have "successive (map fst ?F)" using snoc.prems(3) by simp
    then have "?F = take ?m cs" using snoc.IH fst_cs len hd_cs by simp
    then show ?thesis using False m_le by simp
  next
    case True
    then have suc: "successive (map fst ?F @ [fst c])" using snoc.prems(3) by simp
    then have sF: "successive (map fst ?F)" by (rule successive_append_left)
    then have F: "?F = take ?m cs" using snoc.IH fst_cs len hd_cs by simp
    have "?m = length cs"
    proof (cases "cs = []")
      case True
      then show ?thesis by simp
    next
      case False
      then have "hd cs \<in> set ?F" using hd_cs by simp
      then have ne: "?F \<noteq> []" by (metis empty_iff list.set(1))
      then have m_pos: "0 < ?m" by simp
      from suc ne have "fst c = last (map fst ?F) + 1"
        by (simp only: successive_snoc) simp
      moreover have "last (map fst ?F) = fst (last ?F)" using ne by (rule last_map)
      moreover have "last ?F = cs ! (?m - 1)"
      proof -
        have "last ?F = last (take ?m cs)" using F by simp
        also have "\<dots> = take ?m cs ! (?m - 1)"
          using m_pos m_le by (subst last_conv_nth) (auto simp del: length_filter_le)
        also have "\<dots> = cs ! (?m - 1)" using m_pos by simp
        finally show ?thesis .
      qed
      moreover have "fst (cs ! (?m - 1)) = of_nat (?m - 1)"
      proof -
        have lt: "?m - 1 < length cs" using m_pos m_le by linarith
        have "fst (cs ! (?m - 1)) = map fst cs ! (?m - 1)" by (simp only: nth_map [OF lt])
        also have "\<dots> = map of_nat [0..<length cs] ! (?m - 1)" by (simp only: fst_cs)
        also have "\<dots> = of_nat (?m - 1)" using lt by (simp del: length_filter_le)
        finally show ?thesis .
      qed
      ultimately have "(of_nat (length cs) :: 16 word) = of_nat (?m - 1) + 1"
        using w by simp
      also have "\<dots> = of_nat ?m" using m_pos by (cases ?m) simp_all
      finally have eq: "(of_nat (length cs) :: 16 word) = of_nat ?m" .
      have mlt: "?m < 65536" using len m_le by linarith
      have "length cs = ?m" by (rule of_nat_16_inj [OF len mlt eq])
      then show ?thesis by simp
    qed
    then have "?F = cs" using F by simp
    then show ?thesis using True by simp
  qed
qed

lemma filter_prefix_rest:
  assumes F: "filter P xs = take (length (filter P xs)) xs"
  shows "filter P (drop (length (filter P xs)) xs) = []"
proof -
  let ?m = "length (filter P xs)"
  have "\<forall>x \<in> set (filter P xs). P x" by simp
  then have "\<forall>x \<in> set (take ?m xs). P x" using F by simp
  then have t: "filter P (take ?m xs) = take ?m xs" by (simp only: filter_id_conv)
  have "filter P xs = filter P (take ?m xs @ drop ?m xs)" by (simp only: append_take_drop_id)
  also have "\<dots> = take ?m xs @ filter P (drop ?m xs)" by (simp only: filter_append t)
  finally have "take ?m xs @ [] = take ?m xs @ filter P (drop ?m xs)" using F by simp
  then show ?thesis by (simp only: same_append_eq)
qed

lemma success_before_success:
  fixes cs :: "(16 word \<times> bool) list"
  assumes F: "filter snd cs = take (length (filter snd cs)) cs"
    and ik: "i < k" and k: "k < length cs" and ok: "snd (cs ! k)"
  shows "snd (cs ! i)"
proof -
  let ?m = "length (filter snd cs)"
  have none: "\<forall>x \<in> set (drop ?m cs). \<not> snd x"
    using filter_prefix_rest [OF F] by (simp only: filter_empty_conv)
  have "k < ?m"
  proof (rule ccontr)
    assume "\<not> k < ?m"
    then have mk: "?m \<le> k" by simp
    have "drop ?m cs ! (k - ?m) = cs ! k" using mk k by simp
    moreover have "k - ?m < length (drop ?m cs)" using mk k by simp
    ultimately have "cs ! k \<in> set (drop ?m cs)" using nth_mem by metis
    then show False using none ok by blast
  qed
  then have im: "i < ?m" using ik by simp
  have "i < length (take ?m cs)" using im k ik by simp
  then have "take ?m cs ! i \<in> set (take ?m cs)" by (rule nth_mem)
  moreover have "take ?m cs ! i = cs ! i" using im by simp
  ultimately have "cs ! i \<in> set (filter snd cs)" using F by simp
  then show ?thesis by simp
qed


lemma sequences_append: "sequences (xs @ ys) = sequences xs @ sequences ys"
  by (simp add: sequences_def)

lemma task_partition:
  "length (filter (\<lambda>x. fst x = Collector) xs) + length (filter (\<lambda>x. fst x = Processor) xs) +
   length (filter (\<lambda>x. fst x = Transmitter) xs) = length xs"
proof (induction xs)
  case Nil
  show ?case by simp
next
  case (Cons x xs)
  then show ?case by (cases "fst x") simp_all
qed

lemma retrieved_by_lengths:
  "length (retrieved_by Collector tr) + length (retrieved_by Processor tr) +
   length (retrieved_by Transmitter tr) = length (retrieved tr)"
  by (simp add: retrieved_by_def task_partition)

text \<open>
  Claim C3.  In every run, whatever the interleaving of the three tasks' steps, the packets
  handed out by retrieve calls, in dequeue order, followed by the packets still queued, are
  exactly the successfully stored packets in store order: each stored packet is handed out
  at most once, by one retrieve call of one task.  Only the Processor and the Transmitter
  retrieve, so what the two have retrieved plus the occupancy equals the number of
  successful stores, and once the queue is drained the two counts add up to that number.
  Each task's counter is the number of its retrievals modulo \<open>2^32\<close>.
\<close>

theorem competing_consumers:
  assumes "s = run cfg sched boot"
  shows "map snd (retrieved (trace s)) @ queue s = stored (trace s) \<and>
    length (retrieved_by Processor (trace s)) + length (retrieved_by Transmitter (trace s)) =
      length (retrieved (trace s)) \<and>
    length (retrieved_by Processor (trace s)) + length (retrieved_by Transmitter (trace s)) +
      telemetry_available_packets s = length (stored (trace s)) \<and>
    processed_count s = of_nat (length (retrieved_by Processor (trace s))) \<and>
    transmission_count s = of_nat (length (retrieved_by Transmitter (trace s))) \<and>
    (queue s = [] \<longrightarrow>
       length (retrieved_by Processor (trace s)) + length (retrieved_by Transmitter (trace s)) =
         length (stored (trace s)))"
proof -
  have inv: "queue_inv s" unfolding assms by (rule queue_inv_run)
  then have q: "map snd (retrieved (trace s)) @ queue s = stored (trace s)"
    and pc: "processed_count s = of_nat (length (retrieved_by Processor (trace s)))"
    and tc: "transmission_count s = of_nat (length (retrieved_by Transmitter (trace s)))"
    and c: "retrieved_by Collector (trace s) = []"
    by (simp_all add: queue_inv_def)
  have l: "length (retrieved_by Processor (trace s)) +
      length (retrieved_by Transmitter (trace s)) = length (retrieved (trace s))"
    using retrieved_by_lengths [of "trace s"] c by simp
  have "length (map snd (retrieved (trace s)) @ queue s) = length (stored (trace s))"
    by (simp only: q)
  then have n: "length (retrieved (trace s)) + length (queue s) = length (stored (trace s))"
    by simp
  have e: "queue s = [] \<longrightarrow>
       length (retrieved_by Processor (trace s)) + length (retrieved_by Transmitter (trace s)) =
         length (stored (trace s))"
    using l n by auto
  have a: "length (retrieved_by Processor (trace s)) +
      length (retrieved_by Transmitter (trace s)) + telemetry_available_packets s =
      length (stored (trace s))"
    using l n by (simp add: telemetry_available_packets_def)
  show ?thesis
    by (intro conjI q l a pc tc e)
qed

lemma retrieved_sequences_prefix:
  "sequences (map snd (retrieved (trace (run cfg sched boot)))) @
   sequences (queue (run cfg sched boot)) = sequences (stored (trace (run cfg sched boot)))"
proof -
  have "queue_inv (run cfg sched boot)" by (rule queue_inv_run)
  then have "map snd (retrieved (trace (run cfg sched boot))) @ queue (run cfg sched boot) =
      stored (trace (run cfg sched boot))"
    by (simp add: queue_inv_def)
  then have "sequences (map snd (retrieved (trace (run cfg sched boot))) @
      queue (run cfg sched boot)) = sequences (stored (trace (run cfg sched boot)))"
    by (simp only:)
  then show ?thesis by (simp only: sequences_append)
qed

lemma filter_by_position:
  "filter P cs = map (nth cs) (filter (\<lambda>j. P (cs ! j)) [0..<length cs])"
proof -
  have "filter P cs = filter P (map (nth cs) [0..<length cs])"
    by (simp only: map_nth)
  also have "\<dots> = map (nth cs) (filter (P \<circ> nth cs) [0..<length cs])"
    by (simp only: filter_map)
  finally show ?thesis by (simp only: comp_def)
qed

lemma stored_by_position:
  "stored tr = map (\<lambda>j. fst (store_calls tr ! j)) (store_positions tr)"
  unfolding stored_def store_positions_def
  by (subst filter_by_position) (simp add: comp_def)

lemma store_positions_sorted: "sorted_wrt (<) (store_positions tr)"
  unfolding store_positions_def by (rule sorted_wrt_filter) simp

lemma store_positions_member:
  "j \<in> set (store_positions tr) \<longleftrightarrow> j < length (store_calls tr) \<and> snd (store_calls tr ! j)"
  by (auto simp: store_positions_def)

lemma between_sorted:
  assumes "sorted_wrt (<) (xs :: nat list)" and "Suc i < length xs"
    and "xs ! i < j" and "j < xs ! Suc i"
  shows "j \<notin> set xs"
proof
  assume "j \<in> set xs"
  then obtain m where m: "m < length xs" and j: "xs ! m = j"
    by (auto simp: in_set_conv_nth)
  have "i < m"
  proof (rule ccontr)
    assume "\<not> i < m"
    then have "m = i \<or> m < i" by auto
    then show False
    proof
      assume "m = i" then show False using assms(3) j by simp
    next
      assume "m < i"
      moreover have "i < length xs" using assms(2) by simp
      ultimately have "xs ! m < xs ! i"
        by (rule sorted_wrt_nth_less [OF assms(1)])
      then show False using assms(3) j by simp
    qed
  qed
  have "m < Suc i"
  proof (rule ccontr)
    assume "\<not> m < Suc i"
    then have "m = Suc i \<or> Suc i < m" by auto
    then show False
    proof
      assume "m = Suc i" then show False using assms(4) j by simp
    next
      assume "Suc i < m"
      then have "xs ! Suc i < xs ! m"
        using m by (rule sorted_wrt_nth_less [OF assms(1)])
      then show False using assms(4) j by simp
    qed
  qed
  then show False using \<open>i < m\<close> by simp
qed

lemma call_sequence:
  assumes "s = run cfg sched boot" and "j < length (store_calls (trace s))"
  shows "sequence (header (fst (store_calls (trace s) ! j))) = of_nat j"
proof -
  have "seq_inv s" unfolding assms(1) by (rule seq_inv_run)
  then have all: "sequences (map fst (store_calls (trace s))) =
      map of_nat [0..<length (store_calls (trace s))]"
    by (simp add: seq_inv_def)
  have "sequence (header (fst (store_calls (trace s) ! j))) =
      sequences (map fst (store_calls (trace s))) ! j"
    using assms(2) by (simp add: sequences_def)
  also have "\<dots> = map of_nat [0..<length (store_calls (trace s))] ! j"
    by (simp only: all)
  also have "\<dots> = of_nat j" using assms(2) by simp
  finally show ?thesis .
qed

lemma dequeued_position:
  assumes run: "s = run cfg sched boot" and k: "k < length (retrieved (trace s))"
  shows "k < length (store_positions (trace s)) \<and>
    store_positions (trace s) ! k < length (store_calls (trace s)) \<and>
    store_calls (trace s) ! (store_positions (trace s) ! k) =
      (snd (retrieved (trace s) ! k), True) \<and>
    sequence (header (snd (retrieved (trace s) ! k))) = of_nat (store_positions (trace s) ! k)"
proof -
  let ?calls = "store_calls (trace s)"
  let ?pos = "store_positions (trace s)"
  let ?deq = "map snd (retrieved (trace s))"
  have "queue_inv s" unfolding run by (rule queue_inv_run)
  then have q: "?deq @ queue s = map (\<lambda>j. fst (?calls ! j)) ?pos"
    by (simp add: queue_inv_def stored_by_position)
  have "length (?deq @ queue s) = length ?pos"
    by (simp only: q length_map)
  then have kp: "k < length ?pos" using k by simp
  have "(?deq @ queue s) ! k = ?deq ! k" using k by (simp add: nth_append)
  then have "?deq ! k = map (\<lambda>j. fst (?calls ! j)) ?pos ! k" by (simp only: q)
  then have d: "snd (retrieved (trace s) ! k) = fst (?calls ! (?pos ! k))"
    using k kp by simp
  have "?pos ! k \<in> set ?pos" using kp by (rule nth_mem)
  then have m: "?pos ! k < length ?calls" "snd (?calls ! (?pos ! k))"
    by (simp_all add: store_positions_member)
  have c: "?calls ! (?pos ! k) = (snd (retrieved (trace s) ! k), True)"
    using d m(2) by (intro prod_eqI) simp_all
  have "sequence (header (snd (retrieved (trace s) ! k))) = of_nat (?pos ! k)"
    unfolding d using run m(1) by (rule call_sequence)
  then show ?thesis using kp m(1) c by (intro conjI)
qed

text \<open>
  Claim C1, amended.  The sequence counter is one 16-bit counter for all four generators,
  starts at 0 and is incremented once per generated packet: the \<open>k\<close>-th store call of a
  run carries the number \<open>k\<close> modulo \<open>2^16\<close>.  Two packets dequeued consecutively were
  stored by two successful store calls with only failed store calls between them, and the
  second packet's sequence number is the first's plus 1 plus the number of those failed
  calls, modulo \<open>2^16\<close>.  So it is the first's plus 1 whenever no store call failed between
  the stores of the two packets, and, in a run of at most 65536 store calls, only then.
\<close>

theorem sequence_monotonic:
  assumes "s = run cfg sched boot"
  shows "sequence_number boot = 0 \<and>
    sequences (map fst (store_calls (trace s))) =
      map of_nat [0..<length (store_calls (trace s))] \<and>
    sequence_number s = of_nat (length (store_calls (trace s))) \<and>
    (Suc i < length (retrieved (trace s)) \<longrightarrow>
       store_positions (trace s) ! i < store_positions (trace s) ! Suc i \<and>
       store_positions (trace s) ! Suc i < length (store_calls (trace s)) \<and>
       store_calls (trace s) ! (store_positions (trace s) ! i) =
         (snd (retrieved (trace s) ! i), True) \<and>
       store_calls (trace s) ! (store_positions (trace s) ! Suc i) =
         (snd (retrieved (trace s) ! Suc i), True) \<and>
       (\<forall>j. store_positions (trace s) ! i < j \<and> j < store_positions (trace s) ! Suc i \<longrightarrow>
            \<not> snd (store_calls (trace s) ! j)) \<and>
       sequence (header (snd (retrieved (trace s) ! Suc i))) =
         sequence (header (snd (retrieved (trace s) ! i))) + 1 +
           of_nat (dropped_between (trace s) i) \<and>
       (dropped_between (trace s) i = 0 \<longrightarrow>
          sequence (header (snd (retrieved (trace s) ! Suc i))) =
            sequence (header (snd (retrieved (trace s) ! i))) + 1) \<and>
       (length (store_calls (trace s)) \<le> 65536 \<longrightarrow>
        sequence (header (snd (retrieved (trace s) ! Suc i))) =
          sequence (header (snd (retrieved (trace s) ! i))) + 1 \<longrightarrow>
          dropped_between (trace s) i = 0))"
proof -
  let ?calls = "store_calls (trace s)"
  let ?pos = "store_positions (trace s)"
  have inv: "seq_inv s" unfolding assms by (rule seq_inv_run)
  then have all: "sequences (map fst ?calls) = map of_nat [0..<length ?calls]"
    and cnt: "sequence_number s = of_nat (length ?calls)"
    by (simp_all add: seq_inv_def)
  have zero: "sequence_number boot = 0" by (simp add: boot_def)
  have pair: "?pos ! i < ?pos ! Suc i \<and>
       ?pos ! Suc i < length ?calls \<and>
       ?calls ! (?pos ! i) = (snd (retrieved (trace s) ! i), True) \<and>
       ?calls ! (?pos ! Suc i) = (snd (retrieved (trace s) ! Suc i), True) \<and>
       (\<forall>j. ?pos ! i < j \<and> j < ?pos ! Suc i \<longrightarrow> \<not> snd (?calls ! j)) \<and>
       sequence (header (snd (retrieved (trace s) ! Suc i))) =
         sequence (header (snd (retrieved (trace s) ! i))) + 1 +
           of_nat (dropped_between (trace s) i) \<and>
       (dropped_between (trace s) i = 0 \<longrightarrow>
          sequence (header (snd (retrieved (trace s) ! Suc i))) =
            sequence (header (snd (retrieved (trace s) ! i))) + 1) \<and>
       (length ?calls \<le> 65536 \<longrightarrow>
        sequence (header (snd (retrieved (trace s) ! Suc i))) =
          sequence (header (snd (retrieved (trace s) ! i))) + 1 \<longrightarrow>
          dropped_between (trace s) i = 0)"
    if si: "Suc i < length (retrieved (trace s))"
  proof -
    have i: "i < length (retrieved (trace s))" using si by simp
    note a = dequeued_position [OF assms i]
    note b = dequeued_position [OF assms si]
    let ?a = "?pos ! i" and ?b = "?pos ! Suc i"
    have sp: "Suc i < length ?pos" using b by simp
    have lt: "?a < ?b"
      using store_positions_sorted [of "trace s"] _ sp
      by (rule sorted_wrt_nth_less) simp
    have bn: "?b < length ?calls" using b by simp
    have ca: "?calls ! ?a = (snd (retrieved (trace s) ! i), True)" using a by simp
    have cb: "?calls ! ?b = (snd (retrieved (trace s) ! Suc i), True)" using b by simp
    have sa: "sequence (header (snd (retrieved (trace s) ! i))) = of_nat ?a" using a by simp
    have sb: "sequence (header (snd (retrieved (trace s) ! Suc i))) = of_nat ?b"
      using b by simp
    have btw: "\<forall>j. ?a < j \<and> j < ?b \<longrightarrow> \<not> snd (?calls ! j)"
    proof (intro allI impI)
      fix j assume j: "?a < j \<and> j < ?b"
      then have "j \<notin> set ?pos"
        using between_sorted [OF store_positions_sorted sp] by blast
      moreover have "j < length ?calls" using j bn by simp
      ultimately show "\<not> snd (?calls ! j)" by (simp add: store_positions_member)
    qed
    have d: "?b = ?a + 1 + dropped_between (trace s) i"
      using lt by (simp add: dropped_between_def)
    have "(of_nat ?b :: 16 word) = of_nat (?a + 1 + dropped_between (trace s) i)"
      using d by (simp only:)
    then have step: "sequence (header (snd (retrieved (trace s) ! Suc i))) =
        sequence (header (snd (retrieved (trace s) ! i))) + 1 +
          of_nat (dropped_between (trace s) i)"
      by (simp add: sa sb)
    have none: "dropped_between (trace s) i = 0 \<longrightarrow>
          sequence (header (snd (retrieved (trace s) ! Suc i))) =
            sequence (header (snd (retrieved (trace s) ! i))) + 1"
      using step by simp
    have conv: "length ?calls \<le> 65536 \<longrightarrow>
        sequence (header (snd (retrieved (trace s) ! Suc i))) =
          sequence (header (snd (retrieved (trace s) ! i))) + 1 \<longrightarrow>
          dropped_between (trace s) i = 0"
    proof (intro impI)
      assume n: "length ?calls \<le> 65536"
        and e: "sequence (header (snd (retrieved (trace s) ! Suc i))) =
          sequence (header (snd (retrieved (trace s) ! i))) + 1"
      have "(of_nat ?b :: 16 word) = of_nat (Suc ?a)" using e by (simp add: sa sb)
      moreover have "?b < 65536" using bn n by linarith
      moreover have "Suc ?a < 65536" using lt bn n by linarith
      ultimately have "?b = Suc ?a" by (intro of_nat_16_inj)
      then show "dropped_between (trace s) i = 0" by (simp add: dropped_between_def)
    qed
    show ?thesis by (intro conjI lt bn ca cb btw step none conv)
  qed
  then have p: "Suc i < length (retrieved (trace s)) \<longrightarrow>
       ?pos ! i < ?pos ! Suc i \<and>
       ?pos ! Suc i < length ?calls \<and>
       ?calls ! (?pos ! i) = (snd (retrieved (trace s) ! i), True) \<and>
       ?calls ! (?pos ! Suc i) = (snd (retrieved (trace s) ! Suc i), True) \<and>
       (\<forall>j. ?pos ! i < j \<and> j < ?pos ! Suc i \<longrightarrow> \<not> snd (?calls ! j)) \<and>
       sequence (header (snd (retrieved (trace s) ! Suc i))) =
         sequence (header (snd (retrieved (trace s) ! i))) + 1 +
           of_nat (dropped_between (trace s) i) \<and>
       (dropped_between (trace s) i = 0 \<longrightarrow>
          sequence (header (snd (retrieved (trace s) ! Suc i))) =
            sequence (header (snd (retrieved (trace s) ! i))) + 1) \<and>
       (length ?calls \<le> 65536 \<longrightarrow>
        sequence (header (snd (retrieved (trace s) ! Suc i))) =
          sequence (header (snd (retrieved (trace s) ! i))) + 1 \<longrightarrow>
          dropped_between (trace s) i = 0)"
    by (rule impI)
  show ?thesis by (intro conjI zero all cnt p)
qed

lemma stored_sequences_filter:
  "sequences (stored tr) =
   map fst (filter snd (map (\<lambda>c. (sequence (header (fst c)), snd c)) (store_calls tr)))"
  by (simp add: sequences_def stored_def filter_map comp_def)

lemma generator_full:
  "queue_capacity cfg \<le> length (queue s) \<Longrightarrow>
     queue (generate_system_telemetry cfg inp s) = queue s"
  "queue_capacity cfg \<le> length (queue s) \<Longrightarrow>
     queue (generate_power_telemetry cfg inp s) = queue s"
  "queue_capacity cfg \<le> length (queue s) \<Longrightarrow>
     queue (generate_temperature_telemetry cfg inp s) = queue s"
  "queue_capacity cfg \<le> length (queue s) \<Longrightarrow>
     queue (generate_subsystem_telemetry cfg inp s) = queue s"
  by (simp_all add: generator_defs Let_def store_packet_effect)

lemma gap_in_run:
  assumes run: "s = run cfg sched boot"
    and len: "length (store_calls (trace s)) \<le> 65536"
    and ik: "i < k" and k: "k < length (store_calls (trace s))"
    and failed: "\<not> snd (store_calls (trace s) ! i)"
    and ok: "snd (store_calls (trace s) ! k)"
  shows "\<not> successive (sequences (stored (trace s)))"
proof
  assume suc: "successive (sequences (stored (trace s)))"
  let ?calls = "store_calls (trace s)"
  let ?cs = "map (\<lambda>c. (sequence (header (fst c)), snd c)) ?calls"
  have "seq_inv s" unfolding run by (rule seq_inv_run)
  then have fsts: "map fst ?cs = map of_nat [0..<length ?cs]"
    by (simp add: seq_inv_def sequences_def comp_def)
  have len': "length ?cs \<le> 65536" using len by simp
  have suc': "successive (map fst (filter snd ?cs))"
    using suc by (simp only: stored_sequences_filter)
  have "?calls ! k \<in> set ?calls" using k by (rule nth_mem)
  then have some: "\<not> list_all (\<lambda>c. \<not> snd c) ?calls"
    using ok by (auto simp: list_all_iff)
  have "first_inv cfg s" unfolding run by (rule first_inv_run)
  then have "?calls = [] \<or> snd (hd ?calls)"
    using some by (simp add: first_inv_def split: if_splits)
  then have hd: "?cs = [] \<or> snd (hd ?cs)"
    by (cases ?calls) simp_all
  have F: "filter snd ?cs = take (length (filter snd ?cs)) ?cs"
    by (rule successes_first [OF fsts len' suc' hd])
  have k': "k < length ?cs" using k by simp
  have "snd (?cs ! k)" using ok k by simp
  then have "snd (?cs ! i)" by (rule success_before_success [OF F ik k'])
  then have "snd (?calls ! i)" using ik k by simp
  then show False using failed by simp
qed

text \<open>
  Claim C10.  Every generator increments the sequence counter, whatever the state of the
  queue; on a full queue the store fails and the queue stays as it was.  Hence, in a run
  of at most 65536 store calls in which a failed store call is followed by a successful
  one, the sequence numbers of the stored packets are not successive, and neither are those
  of the dequeued packets once the queue is drained.
\<close>

theorem failed_store_leaves_gap:
  "sequence_number (generate_system_telemetry cfg inp s) = sequence_number s + 1 \<and>
   sequence_number (generate_power_telemetry cfg inp s) = sequence_number s + 1 \<and>
   sequence_number (generate_temperature_telemetry cfg inp s) = sequence_number s + 1 \<and>
   sequence_number (generate_subsystem_telemetry cfg inp s) = sequence_number s + 1 \<and>
   (queue_capacity cfg \<le> length (queue s) \<longrightarrow>
      queue (generate_system_telemetry cfg inp s) = queue s \<and>
      queue (generate_power_telemetry cfg inp s) = queue s \<and>
      queue (generate_temperature_telemetry cfg inp s) = queue s \<and>
      queue (generate_subsystem_telemetry cfg inp s) = queue s) \<and>
   (s' = run cfg sched boot \<longrightarrow> length (store_calls (trace s')) \<le> 65536 \<longrightarrow>
    i < k \<longrightarrow> k < length (store_calls (trace s')) \<longrightarrow>
    \<not> snd (store_calls (trace s') ! i) \<longrightarrow> snd (store_calls (trace s') ! k) \<longrightarrow>
      \<not> successive (sequences (stored (trace s'))) \<and>
      (queue s' = [] \<longrightarrow> \<not> successive (sequences (map snd (retrieved (trace s'))))))"
proof -
  have c: "\<not> successive (sequences (stored (trace s'))) \<and>
      (queue s' = [] \<longrightarrow> \<not> successive (sequences (map snd (retrieved (trace s')))))"
    if run: "s' = run cfg sched boot" and "length (store_calls (trace s')) \<le> 65536"
      and "i < k" and "k < length (store_calls (trace s'))"
      and "\<not> snd (store_calls (trace s') ! i)" and "snd (store_calls (trace s') ! k)"
  proof -
    have g: "\<not> successive (sequences (stored (trace s')))"
      using that by (rule gap_in_run)
    have "sequences (map snd (retrieved (trace s'))) @ sequences (queue s') =
        sequences (stored (trace s'))"
      unfolding run by (rule retrieved_sequences_prefix)
    then have "queue s' = [] \<longrightarrow>
        sequences (map snd (retrieved (trace s'))) = sequences (stored (trace s'))"
      by (auto simp: sequences_def)
    then show ?thesis using g by auto
  qed
  show ?thesis
    using c by (simp add: generator_counter generator_full)
qed

lemmas run_simps = run_def step_def collector_step_def processor_step_def transmitter_step_def
  generator_defs telemetry_store_packet_def telemetry_retrieve_packet_def
  telemetry_storage_init_def telemetry_available_packets_def Let_def boot_def
  nominal_config_def reading_def sequences_def stored_def retrieved_by_def

lemma overflow_schedule_list: "overflow_schedule =
  [(Collector, reading 10), (Collector, reading 10), (Collector, reading 10),
   (Collector, reading 10), (Collector, reading 10), (Collector, reading 10),
   (Collector, reading 10), (Collector, reading 10), (Collector, reading 10),
   (Collector, reading 10), (Collector, reading 10),
   (Processor, reading 20), (Processor, reading 20), (Processor, reading 20),
   (Processor, reading 20), (Collector, reading 30), (Processor, reading 40)]"
  by (simp add: overflow_schedule_def eval_nat_numeral)

lemma contact_schedule_list: "contact_schedule =
  [(Collector, reading 0), (Collector, reading 0), (Collector, reading 0),
   (Collector, reading 0), (Collector, reading 0),
   (Transmitter, reading 0), (Transmitter, reading 1), (Processor, reading 2),
   (Transmitter, reading 60), (Processor, reading 61), (Transmitter, reading 120)]"
  by (simp add: contact_schedule_def eval_nat_numeral)

lemma first_cycle_list: "replicate 5 (Collector, reading 10) =
  [(Collector, reading 10), (Collector, reading 10), (Collector, reading 10),
   (Collector, reading 10), (Collector, reading 10)]"
  by (simp add: eval_nat_numeral)

lemma third_cycle_schedule_list: "third_cycle_schedule =
  [(Collector, reading 10), (Collector, reading 10), (Collector, reading 10),
   (Collector, reading 10), (Collector, reading 10), (Collector, reading 10),
   (Collector, reading 10), (Collector, reading 10), (Collector, reading 10),
   (Collector, reading 10), (Collector, reading 10), (Collector, reading 10),
   (Collector, reading 10), (Collector, reading 10), (Collector, reading 10),
   (Collector, reading 10),
   (Processor, reading 20), (Processor, reading 20), (Processor, reading 20),
   (Processor, reading 20), (Processor, reading 20), (Processor, reading 20),
   (Processor, reading 20), (Processor, reading 20),
   (Collector, reading 30), (Processor, reading 40)]"
  by (simp add: third_cycle_schedule_def eval_nat_numeral)

lemma two_cycles_list: "replicate 11 (Collector, reading 10) =
  [(Collector, reading 10), (Collector, reading 10), (Collector, reading 10),
   (Collector, reading 10), (Collector, reading 10), (Collector, reading 10),
   (Collector, reading 10), (Collector, reading 10), (Collector, reading 10),
   (Collector, reading 10), (Collector, reading 10)]"
  by (simp add: eval_nat_numeral)

lemma third_cycle_results:
  "map snd (store_calls (trace (run eight_slot_config third_cycle_schedule boot))) =
     [True, True, True, True, True, True, True, True, False, False, False, False, True]"
  unfolding third_cycle_schedule_list by (simp add: run_simps eight_slot_config_def)

lemma third_cycle_positions:
  "store_positions (trace (run eight_slot_config third_cycle_schedule boot)) =
     [0, 1, 2, 3, 4, 5, 6, 7, 12]"
proof -
  let ?calls = "store_calls (trace (run eight_slot_config third_cycle_schedule boot))"
  have n: "length ?calls = 13"
    using arg_cong [OF third_cycle_results, of length] by simp
  have "filter (\<lambda>j. snd (?calls ! j)) [0..<length ?calls] =
      filter (\<lambda>j. map snd ?calls ! j) [0..<length ?calls]"
    by (rule filter_cong) simp_all
  then show ?thesis
    unfolding store_positions_def n third_cycle_results
    by (simp add: upt_rec [of _ 13] eval_nat_numeral)
qed

text \<open>
  Claim C1, as stated: with fewer than 65536 packets produced, consecutively dequeued
  packets have successive sequence numbers.  With a queue of capacity 8, two Collector
  cycles fill the queue and the third cycle finds it full; its four packets consume the
  sequence numbers 8 to 11 and are dropped.  Thirteen packets are produced, and the dequeue
  order carries the sequence numbers 0 to 7 and then 12.
\<close>

theorem consecutive_dequeue_counterexample:
  "telemetry_available_packets
     (run eight_slot_config (replicate 11 (Collector, reading 10)) boot) = 8 \<and>
   length (store_calls (trace (run eight_slot_config third_cycle_schedule boot))) < 65536 \<and>
   sequences (map snd (retrieved (trace (run eight_slot_config third_cycle_schedule boot)))) =
     [0, 1, 2, 3, 4, 5, 6, 7, 12] \<and>
   \<not> successive
     (sequences (map snd (retrieved (trace (run eight_slot_config third_cycle_schedule boot)))))"
proof -
  have o: "telemetry_available_packets
     (run eight_slot_config (replicate 11 (Collector, reading 10)) boot) = 8"
    unfolding two_cycles_list by (simp add: run_simps eight_slot_config_def)
  have a: "sequences (map snd (retrieved (trace
      (run eight_slot_config third_cycle_schedule boot)))) = [0, 1, 2, 3, 4, 5, 6, 7, 12]"
    unfolding third_cycle_schedule_list by (simp add: run_simps eight_slot_config_def)
  have b: "length (store_calls (trace (run eight_slot_config third_cycle_schedule boot))) = 13"
    using arg_cong [OF third_cycle_results, of length] by simp
  show ?thesis unfolding a b o by simp
qed

text \<open>
  In that run the first two packets dequeued were stored by successive calls, and between
  the stores of the last two packets four store calls failed.
\<close>

theorem sequence_monotonic_witness:
  "Suc 0 < length (retrieved (trace (run eight_slot_config third_cycle_schedule boot))) \<and>
   dropped_between (trace (run eight_slot_config third_cycle_schedule boot)) 0 = 0 \<and>
   length (store_calls (trace (run eight_slot_config third_cycle_schedule boot))) \<le> 65536 \<and>
   sequence (header (snd (retrieved (trace
       (run eight_slot_config third_cycle_schedule boot)) ! Suc 0))) =
     sequence (header (snd (retrieved (trace
       (run eight_slot_config third_cycle_schedule boot)) ! 0))) + 1 \<and>
   Suc 7 < length (retrieved (trace (run eight_slot_config third_cycle_schedule boot))) \<and>
   dropped_between (trace (run eight_slot_config third_cycle_schedule boot)) 7 = 4 \<and>
   sequence (header (snd (retrieved (trace
       (run eight_slot_config third_cycle_schedule boot)) ! Suc 7))) =
     sequence (header (snd (retrieved (trace
       (run eight_slot_config third_cycle_schedule boot)) ! 7))) + 5"
proof -
  let ?s = "run eight_slot_config third_cycle_schedule boot"
  have l: "length (retrieved (trace ?s)) = 9"
    unfolding third_cycle_schedule_list by (simp add: run_simps eight_slot_config_def)
  have n: "length (store_calls (trace ?s)) = 13"
    using arg_cong [OF third_cycle_results, of length] by simp
  have d0: "dropped_between (trace ?s) 0 = 0" and d7: "dropped_between (trace ?s) 7 = 4"
    by (simp_all add: dropped_between_def third_cycle_positions)
  show ?thesis
    using sequence_monotonic [OF refl, of eight_slot_config third_cycle_schedule 0]
      sequence_monotonic [OF refl, of eight_slot_config third_cycle_schedule 7]
    by (simp add: l n d0 d7)
qed

text \<open>
  A contact window in which the Transmitter and the Processor take two packets each.
\<close>

theorem competing_consumers_witness:
  "queue (run nominal_config contact_schedule boot) = [] \<and>
   length (retrieved_by Processor (trace (run nominal_config contact_schedule boot))) = 2 \<and>
   length (retrieved_by Transmitter (trace (run nominal_config contact_schedule boot))) = 2 \<and>
   length (retrieved_by Processor (trace (run nominal_config contact_schedule boot))) +
     length (retrieved_by Transmitter (trace (run nominal_config contact_schedule boot))) =
     length (stored (trace (run nominal_config contact_schedule boot))) \<and>
   processed_count (run nominal_config contact_schedule boot) = 2 \<and>
   transmission_count (run nominal_config contact_schedule boot) = 2"
proof -
  have q: "queue (run nominal_config contact_schedule boot) = []"
    unfolding contact_schedule_list by (simp add: run_simps)
  have p: "length (retrieved_by Processor (trace (run nominal_config contact_schedule boot))) = 2"
    unfolding contact_schedule_list by (simp add: run_simps)
  have t: "length (retrieved_by Transmitter (trace (run nominal_config contact_schedule boot))) = 2"
    unfolding contact_schedule_list by (simp add: run_simps)
  show ?thesis
    using q p t competing_consumers [OF refl, of nominal_config contact_schedule] by simp
qed

text \<open>
  The run with the full queue: the store calls 4 to 7 fail, call 8 succeeds, and the
  packets dequeued carry 0, 1, 2, 3, 8.
\<close>

theorem failed_store_leaves_gap_witness:
  "queue_capacity nominal_config \<le>
     length (queue (run nominal_config (replicate 5 (Collector, reading 10)) boot)) \<and>
   queue (generate_system_telemetry nominal_config (reading 10)
            (run nominal_config (replicate 5 (Collector, reading 10)) boot)) =
     queue (run nominal_config (replicate 5 (Collector, reading 10)) boot) \<and>
   sequence_number (generate_system_telemetry nominal_config (reading 10)
            (run nominal_config (replicate 5 (Collector, reading 10)) boot)) =
     sequence_number (run nominal_config (replicate 5 (Collector, reading 10)) boot) + 1 \<and>
   length (store_calls (trace (run nominal_config overflow_schedule boot))) \<le> 65536 \<and>
   (4 :: nat) < 8 \<and> 8 < length (store_calls (trace (run nominal_config overflow_schedule boot))) \<and>
   \<not> snd (store_calls (trace (run nominal_config overflow_schedule boot)) ! 4) \<and>
   snd (store_calls (trace (run nominal_config overflow_schedule boot)) ! 8) \<and>
   queue (run nominal_config overflow_schedule boot) = [] \<and>
   \<not> successive (sequences (stored (trace (run nominal_config overflow_schedule boot)))) \<and>
   \<not> successive (sequences (map snd (retrieved (trace (run nominal_config overflow_schedule boot)))))"
proof -
  have full: "queue_capacity nominal_config \<le>
     length (queue (run nominal_config (replicate 5 (Collector, reading 10)) boot))"
    unfolding first_cycle_list by (simp add: run_simps)
  have n: "length (store_calls (trace (run nominal_config overflow_schedule boot))) = 9"
    unfolding overflow_schedule_list by (simp add: run_simps)
  have f: "\<not> snd (store_calls (trace (run nominal_config overflow_schedule boot)) ! 4)"
    unfolding overflow_schedule_list by (simp add: run_simps)
  have k: "snd (store_calls (trace (run nominal_config overflow_schedule boot)) ! 8)"
    unfolding overflow_schedule_list by (simp add: run_simps)
  have q: "queue (run nominal_config overflow_schedule boot) = []"
    unfolding overflow_schedule_list by (simp add: run_simps)
  show ?thesis
    using full n f k q
      failed_store_leaves_gap [of nominal_config "reading 10"
        "run nominal_config (replicate 5 (Collector, reading 10)) boot"
        "run nominal_config overflow_schedule boot" overflow_schedule 4 8]
    by simp
qed

section \<open>The Transmitter\<close>

lemma transmitter_poll_step:
  assumes "transmitter_at s = Transmitter_poll" and "\<not> ground_station_available s"
  shows "transmitter_step inp s =
    (if (xTaskGetTickCount inp div 1000) mod 30 = 0
     then if 0 < telemetry_available_packets s
          then s\<lparr>poll_tick := xTaskGetTickCount inp, ground_station_available := True,
                 trace := trace s @ [Contact_window_open],
                 transmitter_at := Transmitter_drain\<rparr>
          else s\<lparr>poll_tick := xTaskGetTickCount inp,
                 trace := trace s @ [Contact_window_open, Delay Transmitter 2000]\<rparr>
     else s\<lparr>poll_tick := xTaskGetTickCount inp,
            trace := trace s @ [Delay Transmitter 2000]\<rparr>)"
  using assms
  by (simp add: transmitter_step_def Let_def telemetry_available_packets_def)

lemma transmitter_drain_step:
  assumes "transmitter_at s = Transmitter_drain"
  shows "transmitter_step inp s =
    (case queue s of
       p # q \<Rightarrow> s\<lparr>queue := q,
                    trace := trace s @ [Retrieve_call Transmitter (Some p), Delay Transmitter 50],
                    transmission_count := transmission_count s + 1\<rparr>
     | [] \<Rightarrow> s\<lparr>trace := trace s @ [Retrieve_call Transmitter None, Delay Transmitter 2000],
                 ground_station_available := False,
                 transmitter_at := Transmitter_poll\<rparr>)"
  using assms
  by (cases "queue s") (simp_all add: transmitter_step_def telemetry_retrieve_packet_def)

lemma transmitter_burst:
  "transmitter_at s = Transmitter_drain \<Longrightarrow> length inps = Suc (length (queue s)) \<Longrightarrow>
   transmitter_steps inps s =
     s\<lparr>queue := [],
       trace := trace s @ burst (queue s) @
         [Retrieve_call Transmitter None, Delay Transmitter 2000],
       transmission_count := transmission_count s + of_nat (length (queue s)),
       ground_station_available := False,
       transmitter_at := Transmitter_poll\<rparr>"
proof (induction inps arbitrary: s)
  case Nil
  then show ?case by simp
next
  case (Cons inp inps)
  show ?case
  proof (cases "queue s")
    case Nil
    then have "inps = []" using Cons.prems(2) by simp
    then show ?thesis
      using Nil Cons.prems(1)
      by (simp add: transmitter_steps_def transmitter_drain_step burst_def)
  next
    case (Cons p q)
    let ?s1 = "transmitter_step inp s"
    have s1: "?s1 = s\<lparr>queue := q,
        trace := trace s @ [Retrieve_call Transmitter (Some p), Delay Transmitter 50],
        transmission_count := transmission_count s + 1\<rparr>"
      using Cons Cons.prems(1) by (simp add: transmitter_drain_step)
    have at1: "transmitter_at ?s1 = Transmitter_drain" using Cons.prems(1) by (simp add: s1)
    have len1: "length inps = Suc (length (queue ?s1))"
      using Cons.prems(2) Cons by (simp add: s1)
    have "transmitter_steps (inp # inps) s = transmitter_steps inps ?s1"
      by (simp add: transmitter_steps_def)
    also have "\<dots> = ?s1\<lparr>queue := [],
       trace := trace ?s1 @ burst (queue ?s1) @
         [Retrieve_call Transmitter None, Delay Transmitter 2000],
       transmission_count := transmission_count ?s1 + of_nat (length (queue ?s1)),
       ground_station_available := False,
       transmitter_at := Transmitter_poll\<rparr>"
      by (rule Cons.IH [OF at1 len1])
    also have "\<dots> = s\<lparr>queue := [],
       trace := trace s @ burst (queue s) @
         [Retrieve_call Transmitter None, Delay Transmitter 2000],
       transmission_count := transmission_count s + of_nat (length (queue s)),
       ground_station_available := False,
       transmitter_at := Transmitter_poll\<rparr>"
      by (simp add: s1 Cons burst_def)
    finally show ?thesis .
  qed
qed


text \<open>
  Claim C4.  At the head of an iteration, with the gate closed, the Transmitter opens the
  gate exactly when the tick count divided by 1000 is a multiple of 30.  With the gate open
  and a nonzero occupancy it starts a burst; with the gate open and occupancy zero it
  closes the gate at once; otherwise it only waits for the next poll.  A step of the burst
  retrieves one packet, adds one to the transmitted count and delays 50 ms, and on an
  empty queue it closes the gate and ends the iteration with the poll delay.  Left alone,
  an iteration that opens the gate on a queue of \<open>n\<close> packets takes \<open>n + 1\<close> retrieves: it
  drains the queue in FIFO order, counts \<open>n\<close> packets and leaves the gate closed.
\<close>

theorem transmitter_iteration:
  "(transmitter_at s = Transmitter_poll \<longrightarrow> \<not> ground_station_available s \<longrightarrow>
      transmitter_step inp s =
        (if (xTaskGetTickCount inp div 1000) mod 30 = 0
         then if 0 < telemetry_available_packets s
              then s\<lparr>poll_tick := xTaskGetTickCount inp, ground_station_available := True,
                     trace := trace s @ [Contact_window_open],
                     transmitter_at := Transmitter_drain\<rparr>
              else s\<lparr>poll_tick := xTaskGetTickCount inp,
                     trace := trace s @ [Contact_window_open, Delay Transmitter 2000]\<rparr>
         else s\<lparr>poll_tick := xTaskGetTickCount inp,
                trace := trace s @ [Delay Transmitter 2000]\<rparr>)) \<and>
   (transmitter_at s = Transmitter_drain \<longrightarrow>
      transmitter_step inp s =
        (case queue s of
           p # q \<Rightarrow>
             s\<lparr>queue := q,
               trace := trace s @ [Retrieve_call Transmitter (Some p), Delay Transmitter 50],
               transmission_count := transmission_count s + 1\<rparr>
         | [] \<Rightarrow>
             s\<lparr>trace := trace s @ [Retrieve_call Transmitter None, Delay Transmitter 2000],
               ground_station_available := False,
               transmitter_at := Transmitter_poll\<rparr>)) \<and>
   (transmitter_at s = Transmitter_poll \<longrightarrow> \<not> ground_station_available s \<longrightarrow>
    (xTaskGetTickCount inp div 1000) mod 30 = 0 \<longrightarrow> 0 < telemetry_available_packets s \<longrightarrow>
    length inps = Suc (telemetry_available_packets s) \<longrightarrow>
      transmitter_steps (inp # inps) s =
        s\<lparr>poll_tick := xTaskGetTickCount inp,
          queue := [],
          trace := trace s @ [Contact_window_open] @ burst (queue s) @
            [Retrieve_call Transmitter None, Delay Transmitter 2000],
          transmission_count := transmission_count s + of_nat (length (queue s)),
          ground_station_available := False,
          transmitter_at := Transmitter_poll\<rparr>)"
proof (intro conjI impI)
  assume "transmitter_at s = Transmitter_poll" and "\<not> ground_station_available s"
  then show "transmitter_step inp s =
        (if (xTaskGetTickCount inp div 1000) mod 30 = 0
         then if 0 < telemetry_available_packets s
              then s\<lparr>poll_tick := xTaskGetTickCount inp, ground_station_available := True,
                     trace := trace s @ [Contact_window_open],
                     transmitter_at := Transmitter_drain\<rparr>
              else s\<lparr>poll_tick := xTaskGetTickCount inp,
                     trace := trace s @ [Contact_window_open, Delay Transmitter 2000]\<rparr>
         else s\<lparr>poll_tick := xTaskGetTickCount inp,
                trace := trace s @ [Delay Transmitter 2000]\<rparr>)"
    by (rule transmitter_poll_step)
next
  assume "transmitter_at s = Transmitter_drain"
  then show "transmitter_step inp s =
        (case queue s of
           p # q \<Rightarrow>
             s\<lparr>queue := q,
               trace := trace s @ [Retrieve_call Transmitter (Some p), Delay Transmitter 50],
               transmission_count := transmission_count s + 1\<rparr>
         | [] \<Rightarrow>
             s\<lparr>trace := trace s @ [Retrieve_call Transmitter None, Delay Transmitter 2000],
               ground_station_available := False,
               transmitter_at := Transmitter_poll\<rparr>)"
    by (rule transmitter_drain_step)
next
  assume at: "transmitter_at s = Transmitter_poll" and g: "\<not> ground_station_available s"
    and c: "(xTaskGetTickCount inp div 1000) mod 30 = 0"
    and a: "0 < telemetry_available_packets s"
    and l: "length inps = Suc (telemetry_available_packets s)"
  let ?s1 = "transmitter_step inp s"
  have s1: "?s1 = s\<lparr>poll_tick := xTaskGetTickCount inp, ground_station_available := True,
      trace := trace s @ [Contact_window_open], transmitter_at := Transmitter_drain\<rparr>"
    using c a by (simp add: transmitter_poll_step [OF at g])
  have at1: "transmitter_at ?s1 = Transmitter_drain" by (simp add: s1)
  have l1: "length inps = Suc (length (queue ?s1))"
    using l by (simp add: s1 telemetry_available_packets_def)
  have "transmitter_steps (inp # inps) s = transmitter_steps inps ?s1"
    by (simp add: transmitter_steps_def)
  also have "\<dots> = ?s1\<lparr>queue := [],
       trace := trace ?s1 @ burst (queue ?s1) @
         [Retrieve_call Transmitter None, Delay Transmitter 2000],
       transmission_count := transmission_count ?s1 + of_nat (length (queue ?s1)),
       ground_station_available := False,
       transmitter_at := Transmitter_poll\<rparr>"
    by (rule transmitter_burst [OF at1 l1])
  also have "\<dots> = s\<lparr>poll_tick := xTaskGetTickCount inp,
          queue := [],
          trace := trace s @ [Contact_window_open] @ burst (queue s) @
            [Retrieve_call Transmitter None, Delay Transmitter 2000],
          transmission_count := transmission_count s + of_nat (length (queue s)),
          ground_station_available := False,
          transmitter_at := Transmitter_poll\<rparr>"
    by (simp add: s1)
  finally show "transmitter_steps (inp # inps) s =
        s\<lparr>poll_tick := xTaskGetTickCount inp,
          queue := [],
          trace := trace s @ [Contact_window_open] @ burst (queue s) @
            [Retrieve_call Transmitter None, Delay Transmitter 2000],
          transmission_count := transmission_count s + of_nat (length (queue s)),
          ground_station_available := False,
          transmitter_at := Transmitter_poll\<rparr>" .
qed

lemma poll_tick_others:
  "poll_tick (collector_step cfg inp s) = poll_tick s"
  "poll_tick (processor_step s) = poll_tick s"
proof -
  show "poll_tick (collector_step cfg inp s) = poll_tick s"
    by (cases "collector_at s")
       (simp_all add: collector_step_def generator_defs Let_def telemetry_store_packet_def
          telemetry_storage_init_def)
  show "poll_tick (processor_step s) = poll_tick s"
    by (cases "queue s") (simp_all add: processor_step_def telemetry_retrieve_packet_def)
qed

text \<open>
  Claim C5.  In every reachable state the Transmitter's gate is closed at the head of an
  iteration, and the step at the head of an iteration makes no retrieve call and leaves
  the queue as it is; it enters the burst only if the tick count it reads meets the gate
  condition, and if it does not meet it, the step only records the tick and the poll
  delay.  The Transmitter changes the queue only in a burst, where the gate is open and the
  tick count read at the head of the iteration met the gate condition; that tick count is
  not changed by the burst nor by the other tasks.
\<close>

theorem transmitter_gated:
  assumes "s = run cfg sched boot"
  shows "(transmitter_at s = Transmitter_poll \<longrightarrow>
      \<not> ground_station_available s \<and>
      queue (transmitter_step inp s) = queue s \<and>
      poll_tick (transmitter_step inp s) = xTaskGetTickCount inp \<and>
      (\<exists>d. trace (transmitter_step inp s) = trace s @ d \<and>
           set d \<subseteq> {Contact_window_open, Delay Transmitter 2000}) \<and>
      (transmitter_at (transmitter_step inp s) = Transmitter_drain \<longrightarrow>
         (xTaskGetTickCount inp div 1000) mod 30 = 0)) \<and>
    (transmitter_at s = Transmitter_poll \<longrightarrow> (xTaskGetTickCount inp div 1000) mod 30 \<noteq> 0 \<longrightarrow>
      transmitter_step inp s =
        s\<lparr>poll_tick := xTaskGetTickCount inp, trace := trace s @ [Delay Transmitter 2000]\<rparr>) \<and>
    (transmitter_at s = Transmitter_drain \<longrightarrow>
      ground_station_available s \<and> (poll_tick s div 1000) mod 30 = 0 \<and>
      poll_tick (transmitter_step inp s) = poll_tick s) \<and>
    (queue (transmitter_step inp s) \<noteq> queue s \<longrightarrow>
      transmitter_at s = Transmitter_drain \<and> ground_station_available s \<and>
      (poll_tick s div 1000) mod 30 = 0) \<and>
    poll_tick (collector_step cfg inp s) = poll_tick s \<and>
    poll_tick (processor_step s) = poll_tick s"
proof -
  have inv: "gate_inv s" unfolding assms by (rule gate_inv_run)
  have poll: "\<not> ground_station_available s" if "transmitter_at s = Transmitter_poll"
    using inv that by (simp add: gate_inv_def)
  have drain: "ground_station_available s \<and> (poll_tick s div 1000) mod 30 = 0"
    if "transmitter_at s = Transmitter_drain"
    using inv that by (simp add: gate_inv_def)
  have p1: "\<not> ground_station_available s \<and>
      queue (transmitter_step inp s) = queue s \<and>
      poll_tick (transmitter_step inp s) = xTaskGetTickCount inp \<and>
      (\<exists>d. trace (transmitter_step inp s) = trace s @ d \<and>
           set d \<subseteq> {Contact_window_open, Delay Transmitter 2000}) \<and>
      (transmitter_at (transmitter_step inp s) = Transmitter_drain \<longrightarrow>
         (xTaskGetTickCount inp div 1000) mod 30 = 0)"
    if at: "transmitter_at s = Transmitter_poll"
    using at poll [OF at] by (simp add: transmitter_poll_step [OF at poll [OF at]])
  have p2: "transmitter_step inp s =
        s\<lparr>poll_tick := xTaskGetTickCount inp, trace := trace s @ [Delay Transmitter 2000]\<rparr>"
    if at: "transmitter_at s = Transmitter_poll"
      and "(xTaskGetTickCount inp div 1000) mod 30 \<noteq> 0"
    using that by (simp add: transmitter_poll_step [OF at poll [OF at]])
  have p3: "poll_tick (transmitter_step inp s) = poll_tick s"
    if at: "transmitter_at s = Transmitter_drain"
    by (cases "queue s") (simp_all add: transmitter_drain_step [OF at])
  have p4: "transmitter_at s = Transmitter_drain"
    if "queue (transmitter_step inp s) \<noteq> queue s"
  proof (cases "transmitter_at s")
    case Transmitter_poll
    then show ?thesis using p1 that by simp
  next
    case Transmitter_drain
    then show ?thesis .
  qed
  have c1: "transmitter_at s = Transmitter_poll \<longrightarrow>
      \<not> ground_station_available s \<and>
      queue (transmitter_step inp s) = queue s \<and>
      poll_tick (transmitter_step inp s) = xTaskGetTickCount inp \<and>
      (\<exists>d. trace (transmitter_step inp s) = trace s @ d \<and>
           set d \<subseteq> {Contact_window_open, Delay Transmitter 2000}) \<and>
      (transmitter_at (transmitter_step inp s) = Transmitter_drain \<longrightarrow>
         (xTaskGetTickCount inp div 1000) mod 30 = 0)"
    using p1 by (rule impI)
  have c2: "transmitter_at s = Transmitter_poll \<longrightarrow>
      (xTaskGetTickCount inp div 1000) mod 30 \<noteq> 0 \<longrightarrow>
      transmitter_step inp s =
        s\<lparr>poll_tick := xTaskGetTickCount inp, trace := trace s @ [Delay Transmitter 2000]\<rparr>"
    using p2 by (intro impI)
  have c3: "transmitter_at s = Transmitter_drain \<longrightarrow>
      ground_station_available s \<and> (poll_tick s div 1000) mod 30 = 0 \<and>
      poll_tick (transmitter_step inp s) = poll_tick s"
  proof
    assume at: "transmitter_at s = Transmitter_drain"
    show "ground_station_available s \<and> (poll_tick s div 1000) mod 30 = 0 \<and>
        poll_tick (transmitter_step inp s) = poll_tick s"
      using drain [OF at] p3 [OF at] by (intro conjI) simp_all
  qed
  have c4: "queue (transmitter_step inp s) \<noteq> queue s \<longrightarrow>
      transmitter_at s = Transmitter_drain \<and> ground_station_available s \<and>
      (poll_tick s div 1000) mod 30 = 0"
  proof
    assume "queue (transmitter_step inp s) \<noteq> queue s"
    then have at: "transmitter_at s = Transmitter_drain" by (rule p4)
    show "transmitter_at s = Transmitter_drain \<and> ground_station_available s \<and>
        (poll_tick s div 1000) mod 30 = 0"
      using at drain [OF at] by (intro conjI) simp_all
  qed
  show ?thesis
    by (intro conjI c1 c2 c3 c4 poll_tick_others)
qed

lemma first_cycle_schedule_list: "first_cycle =
  [(Collector, reading 0), (Collector, reading 0), (Collector, reading 0),
   (Collector, reading 0), (Collector, reading 0)]"
  by (simp add: first_cycle_def eval_nat_numeral)

lemma window_schedule_list: "window_schedule =
  [(Collector, reading 0), (Collector, reading 0), (Collector, reading 0),
   (Collector, reading 0), (Collector, reading 0), (Transmitter, reading 0)]"
  by (simp add: window_schedule_def first_cycle_schedule_list)

text \<open>
  The first contact window after one Collector cycle: four packets are sent.
\<close>

theorem transmitter_iteration_witness:
  "transmitter_at (run nominal_config first_cycle boot) = Transmitter_poll \<and>
   \<not> ground_station_available (run nominal_config first_cycle boot) \<and>
   (xTaskGetTickCount (reading 0) div 1000) mod 30 = 0 \<and>
   0 < telemetry_available_packets (run nominal_config first_cycle boot) \<and>
   length [reading 1, reading 51, reading 101, reading 151, reading 201] =
     Suc (telemetry_available_packets (run nominal_config first_cycle boot)) \<and>
   queue (transmitter_steps
            [reading 0, reading 1, reading 51, reading 101, reading 151, reading 201]
            (run nominal_config first_cycle boot)) = [] \<and>
   transmission_count (transmitter_steps
            [reading 0, reading 1, reading 51, reading 101, reading 151, reading 201]
            (run nominal_config first_cycle boot)) = 4 \<and>
   \<not> ground_station_available (transmitter_steps
            [reading 0, reading 1, reading 51, reading 101, reading 151, reading 201]
            (run nominal_config first_cycle boot)) \<and>
   transmitter_at (run nominal_config window_schedule boot) = Transmitter_drain \<and>
   length (queue (transmitter_step (reading 1) (run nominal_config window_schedule boot))) = 3 \<and>
   transmission_count (transmitter_step (reading 1) (run nominal_config window_schedule boot)) = 1"
proof -
  let ?s = "run nominal_config first_cycle boot"
  let ?d = "run nominal_config window_schedule boot"
  have at: "transmitter_at ?s = Transmitter_poll"
    and g: "\<not> ground_station_available ?s"
    and a: "telemetry_available_packets ?s = 4"
    and c: "transmission_count ?s = 0"
    unfolding first_cycle_schedule_list by (simp_all add: run_simps)
  have t: "(xTaskGetTickCount (reading 0) div 1000) mod 30 = 0"
    by (simp add: reading_def)
  have dat: "transmitter_at ?d = Transmitter_drain"
    and dc: "transmission_count ?d = 0"
    and dq: "length (queue ?d) = 4"
    unfolding window_schedule_list by (simp_all add: run_simps)
  obtain p q where pq: "queue ?d = p # q" and lq: "length q = 3"
    using dq by (cases "queue ?d") simp_all
  have l: "length (queue ?s) = 4"
    using a by (simp add: telemetry_available_packets_def)
  show ?thesis
    using transmitter_iteration [of ?s "reading 0"
        "[reading 1, reading 51, reading 101, reading 151, reading 201]"]
      transmitter_iteration [of ?d "reading 1" "[]"]
    by (simp add: at g a c t dat dc pq lq l)
qed

text \<open>
  A poll at tick 5000 with four packets queued leaves the queue alone; in the window opened
  at tick 0 the Transmitter dequeues.
\<close>

theorem transmitter_gated_witness:
  "transmitter_at (run nominal_config first_cycle boot) = Transmitter_poll \<and>
   (xTaskGetTickCount (reading 5000) div 1000) mod 30 \<noteq> 0 \<and>
   queue (transmitter_step (reading 5000) (run nominal_config first_cycle boot)) =
     queue (run nominal_config first_cycle boot) \<and>
   trace (transmitter_step (reading 5000) (run nominal_config first_cycle boot)) =
     trace (run nominal_config first_cycle boot) @ [Delay Transmitter 2000] \<and>
   transmitter_at (run nominal_config window_schedule boot) = Transmitter_drain \<and>
   queue (transmitter_step (reading 1) (run nominal_config window_schedule boot)) \<noteq>
     queue (run nominal_config window_schedule boot) \<and>
   ground_station_available (run nominal_config window_schedule boot) \<and>
   (poll_tick (run nominal_config window_schedule boot) div 1000) mod 30 = 0"
proof -
  let ?s = "run nominal_config first_cycle boot"
  let ?d = "run nominal_config window_schedule boot"
  have at: "transmitter_at ?s = Transmitter_poll"
    unfolding first_cycle_schedule_list by (simp add: run_simps)
  have t: "(xTaskGetTickCount (reading 5000) div 1000) mod 30 \<noteq> 0"
    by (simp add: reading_def)
  have dat: "transmitter_at ?d = Transmitter_drain"
    and dq: "length (queue ?d) = 4"
    unfolding window_schedule_list by (simp_all add: run_simps)
  obtain p q where pq: "queue ?d = p # q"
    using dq by (cases "queue ?d") simp_all
  have ch: "queue (transmitter_step (reading 1) ?d) \<noteq> queue ?d"
    by (simp add: transmitter_drain_step [OF dat] pq)
  show ?thesis
    using transmitter_gated [OF refl, of nominal_config first_cycle "reading 5000"]
      transmitter_gated [OF refl, of nominal_config window_schedule "reading 1"]
    by (simp add: at t dat ch)
qed

section \<open>The virtual sensors\<close>

text \<open>
  Rounding to binary32 moves a value of magnitude at most 1000 by at most \<open>10^-4\<close>: the
  rounding error is half a unit in the last place, and the unit is at most
  \<open>2^-23\<close> times the magnitude.
\<close>

lemma round_ties_even_error: "\<bar>of_int (round_ties_even y) - y\<bar> \<le> 1 / 2"
proof -
  have "of_int \<lfloor>y\<rfloor> \<le> y" and "y < of_int \<lfloor>y\<rfloor> + 1" by linarith+
  then show ?thesis
    by (simp add: round_ties_even_def Let_def)
qed

lemma ilog2_le:
  assumes "0 < x"
  shows "2 powi (ilog2 x) \<le> x"
proof -
  obtain p q where pq: "quotient_of x = (p, q)" by (cases "quotient_of x")
  then have q: "0 < q" by (rule quotient_of_denom_pos)
  have x: "x = of_int p / of_int q" using pq by (rule quotient_of_div)
  have p: "0 < p" using assms q by (simp add: x zero_less_divide_iff)
  let ?a = "bitlen p - bitlen q"
  have bp: "2 ^ nat (bitlen p - 1) \<le> p" using bitlen_bounds [OF p] by simp
  have bq: "q < 2 ^ nat (bitlen q)" using bitlen_bounds [OF q] by simp
  have bp1: "1 \<le> bitlen p" using p by (simp add: bitlen_alt_def)
  have P: "(2 :: rat) powi (bitlen p - 1) \<le> of_int p"
  proof -
    have "(2 :: rat) powi (bitlen p - 1) = 2 ^ nat (bitlen p - 1)"
      using bp1 by (simp add: power_int_nonneg_exp)
    also have "\<dots> = of_int (2 ^ nat (bitlen p - 1))" by simp
    also have "\<dots> \<le> of_int p" using bp by (simp only: of_int_le_iff)
    finally show ?thesis .
  qed
  have Q: "of_int q \<le> (2 :: rat) powi (bitlen q)"
  proof -
    have "(of_int q :: rat) \<le> of_int (2 ^ nat (bitlen q))"
      using bq by (simp only: of_int_le_iff)
    also have "\<dots> = 2 ^ nat (bitlen q)" by simp
    also have "\<dots> = (2 :: rat) powi (bitlen q)"
      using bitlen_nonneg [of q] by (simp add: power_int_nonneg_exp)
    finally show ?thesis .
  qed
  have low: "(2 :: rat) powi (?a - 1) \<le> x"
  proof -
    have "?a - 1 = (bitlen p - 1) - bitlen q" by simp
    then have "(2 :: rat) powi (?a - 1) = 2 powi ((bitlen p - 1) - bitlen q)"
      by (simp only:)
    also have "\<dots> = 2 powi (bitlen p - 1) / 2 powi (bitlen q)"
      by (rule power_int_diff) simp
    also have "\<dots> \<le> of_int p / 2 powi (bitlen q)"
      using P by (simp add: divide_right_mono)
    also have "\<dots> \<le> of_int p / of_int q"
      using Q p q by (simp add: divide_left_mono)
    finally show ?thesis by (simp add: x)
  qed
  show ?thesis
    using low by (simp add: ilog2_def Let_def pq)
qed

lemma f32_round_error:
  assumes "\<bar>x\<bar> \<le> 1000"
  shows "\<bar>f32_round x - x\<bar> \<le> 1 / 10000"
proof (cases "x = 0")
  case True
  then show ?thesis by (simp add: f32_round_def)
next
  case False
  define e where "e = max (ilog2 \<bar>x\<bar>) (- 126)"
  define u :: rat where "u = 2 powi (e - 23)"
  have u: "0 < u" by (simp add: u_def)
  have r: "f32_round x = of_int (round_ties_even (x / u)) * u"
    using False by (simp add: f32_round_def Let_def e_def u_def)
  have "\<bar>f32_round x - x\<bar> = \<bar>of_int (round_ties_even (x / u)) - x / u\<bar> * u"
  proof -
    have "f32_round x - x = (of_int (round_ties_even (x / u)) - x / u) * u"
      using u by (simp add: r algebra_simps)
    then show ?thesis using u by (simp add: abs_mult)
  qed
  also have "\<dots> \<le> 1 / 2 * u"
    using round_ties_even_error [of "x / u"] u by (intro mult_right_mono) simp_all
  also have "\<dots> \<le> 1 / 10000"
  proof (cases "- 126 \<le> ilog2 \<bar>x\<bar>")
    case True
    then have "e = ilog2 \<bar>x\<bar>" by (simp add: e_def)
    then have "2 powi e \<le> \<bar>x\<bar>" using ilog2_le [of "\<bar>x\<bar>"] False by simp
    then have "(2 :: rat) powi e \<le> 1000" using assms by linarith
    moreover have "u = 2 powi e / 2 ^ 23"
      by (simp add: u_def power_int_diff)
    ultimately show ?thesis by simp
  next
    case False
    then have "e = - 126" by (simp add: e_def)
    then have "u = 1 / 2 ^ 149" by (simp add: u_def power_int_minus_divide)
    then show ?thesis by simp
  qed
  finally show ?thesis .
qed

lemma f32_round_near:
  "\<bar>x\<bar> \<le> 1000 \<Longrightarrow> x - 1 / 10000 \<le> f32_round x \<and> f32_round x \<le> x + 1 / 10000"
  using f32_round_error [of x] by linarith

lemma read_virtual_voltage_range:
  "3299 / 1000 \<le> read_virtual_voltage r \<and> read_virtual_voltage r < 35 / 10"
proof -
  define m where "m = unat (r mod 200)"
  have "m < 200" by (simp add: m_def unat_mod)
  then have m: "m \<le> 199" by simp
  define n :: rat where "n = of_nat m"
  have n: "0 \<le> n" "n \<le> 199" using m by (simp_all add: n_def)
  define a where "a = f32_round n"
  define b where "b = f32_round (a / 1000)"
  define c where "c = f32_round (33 / 10)"
  define v where "v = f32_round (c + b)"
  have a: "n - 1 / 10000 \<le> a \<and> a \<le> n + 1 / 10000"
    unfolding a_def using n by (intro f32_round_near) simp
  have b: "a / 1000 - 1 / 10000 \<le> b \<and> b \<le> a / 1000 + 1 / 10000"
    unfolding b_def using a n by (intro f32_round_near) (simp add: abs_le_iff)
  have c: "33 / 10 - 1 / 10000 \<le> c \<and> c \<le> 33 / 10 + 1 / 10000"
    unfolding c_def by (intro f32_round_near) simp
  have v: "c + b - 1 / 10000 \<le> v \<and> v \<le> c + b + 1 / 10000"
    unfolding v_def using a b c n by (intro f32_round_near) (simp add: abs_le_iff)
  have "read_virtual_voltage r = v"
    by (simp add: read_virtual_voltage_def f32_add_def f32_div_def f32_of_uint32_def
        v_def c_def b_def a_def n_def m_def)
  then show ?thesis using a b c v n by simp
qed

lemma read_virtual_temperature_range:
  "2499 / 100 \<le> read_virtual_temperature r \<and> read_virtual_temperature r < 40"
proof -
  define m where "m = unat (r mod 150)"
  have "m < 150" by (simp add: m_def unat_mod)
  then have m: "m \<le> 149" by simp
  define n :: rat where "n = of_nat m"
  have n: "0 \<le> n" "n \<le> 149" using m by (simp_all add: n_def)
  define a where "a = f32_round n"
  define b where "b = f32_round (a / 10)"
  define v where "v = f32_round (25 + b)"
  have a: "n - 1 / 10000 \<le> a \<and> a \<le> n + 1 / 10000"
    unfolding a_def using n by (intro f32_round_near) simp
  have b: "a / 10 - 1 / 10000 \<le> b \<and> b \<le> a / 10 + 1 / 10000"
    unfolding b_def using a n by (intro f32_round_near) (simp add: abs_le_iff)
  have v: "25 + b - 1 / 10000 \<le> v \<and> v \<le> 25 + b + 1 / 10000"
    unfolding v_def using a b n by (intro f32_round_near) (simp add: abs_le_iff)
  have "read_virtual_temperature r = v"
    by (simp add: read_virtual_temperature_def f32_add_def f32_div_def f32_of_uint32_def
        v_def b_def a_def n_def m_def)
  then show ?thesis using a b v n by simp
qed


lemma nominal_voltage: "f32_round (33 / 10) = 13841203 / 4194304"
  by code_simp

text \<open>
  Claim C8.  For every draw of the random source the virtual voltage lies in
  \<open>[3.1, 3.5]\<close> and the virtual temperature in \<open>[10, 40]\<close>.  With \<^verbatim>\<open>WOKWI\<close> defined the
  Power and Temperature generators take their voltage and temperatures from these sources,
  one fresh draw per reading; without it they store fixed constants: the float nearest to
  3.3 and 25 for the battery, and 35, 28, 25, 22 and -15 for the five temperatures.
\<close>

theorem virtual_sensor_ranges:
  "31 / 10 \<le> read_virtual_voltage r \<and> read_virtual_voltage r \<le> 35 / 10 \<and>
   10 \<le> read_virtual_temperature r \<and> read_virtual_temperature r \<le> 40 \<and>
   (WOKWI cfg \<longrightarrow>
      (\<exists>h pl ok. trace (generate_power_telemetry cfg inp s) =
           trace s @ [Store_call \<lparr>header = h, payload = Power pl\<rparr> ok] \<and>
         battery_voltage pl = read_virtual_voltage (esp_random inp 0) \<and>
         power_telem.battery_temperature pl =
           f32_to_int (read_virtual_temperature (esp_random inp 1))) \<and>
      (\<exists>h ok. trace (generate_temperature_telemetry cfg inp s) =
           trace s @ [Store_call \<lparr>header = h, payload = Temperature
             \<lparr>obc_temperature = f32_to_int (read_virtual_temperature (esp_random inp 0)),
              comms_temperature =
                f32_to_int (f32_sub (read_virtual_temperature (esp_random inp 1)) 5),
              payload_temperature =
                f32_to_int (f32_add (read_virtual_temperature (esp_random inp 2)) 3),
              battery_temperature = f32_to_int (read_virtual_temperature (esp_random inp 3)),
              external_temperature =
                f32_to_int (f32_sub (read_virtual_temperature (esp_random inp 4)) 10)\<rparr>\<rparr> ok])) \<and>
   (\<not> WOKWI cfg \<longrightarrow>
      (\<exists>h pl ok. trace (generate_power_telemetry cfg inp s) =
           trace s @ [Store_call \<lparr>header = h, payload = Power pl\<rparr> ok] \<and>
         battery_voltage pl = 13841203 / 4194304 \<and>
         power_telem.battery_temperature pl = 25) \<and>
      (\<exists>h ok. trace (generate_temperature_telemetry cfg inp s) =
           trace s @ [Store_call \<lparr>header = h, payload = Temperature
             \<lparr>obc_temperature = 35, comms_temperature = 28, payload_temperature = 25,
              battery_temperature = 22, external_temperature = - 15\<rparr>\<rparr> ok]))"
proof -
  have v: "31 / 10 \<le> read_virtual_voltage r \<and> read_virtual_voltage r \<le> 35 / 10"
    using read_virtual_voltage_range [of r] by simp
  have t: "10 \<le> read_virtual_temperature r \<and> read_virtual_temperature r \<le> 40"
    using read_virtual_temperature_range [of r] by simp
  have g: "(WOKWI cfg \<longrightarrow>
      (\<exists>h pl ok. trace (generate_power_telemetry cfg inp s) =
           trace s @ [Store_call \<lparr>header = h, payload = Power pl\<rparr> ok] \<and>
         battery_voltage pl = read_virtual_voltage (esp_random inp 0) \<and>
         power_telem.battery_temperature pl =
           f32_to_int (read_virtual_temperature (esp_random inp 1))) \<and>
      (\<exists>h ok. trace (generate_temperature_telemetry cfg inp s) =
           trace s @ [Store_call \<lparr>header = h, payload = Temperature
             \<lparr>obc_temperature = f32_to_int (read_virtual_temperature (esp_random inp 0)),
              comms_temperature =
                f32_to_int (f32_sub (read_virtual_temperature (esp_random inp 1)) 5),
              payload_temperature =
                f32_to_int (f32_add (read_virtual_temperature (esp_random inp 2)) 3),
              battery_temperature = f32_to_int (read_virtual_temperature (esp_random inp 3)),
              external_temperature =
                f32_to_int (f32_sub (read_virtual_temperature (esp_random inp 4)) 10)\<rparr>\<rparr> ok])) \<and>
   (\<not> WOKWI cfg \<longrightarrow>
      (\<exists>h pl ok. trace (generate_power_telemetry cfg inp s) =
           trace s @ [Store_call \<lparr>header = h, payload = Power pl\<rparr> ok] \<and>
         battery_voltage pl = 13841203 / 4194304 \<and>
         power_telem.battery_temperature pl = 25) \<and>
      (\<exists>h ok. trace (generate_temperature_telemetry cfg inp s) =
           trace s @ [Store_call \<lparr>header = h, payload = Temperature
             \<lparr>obc_temperature = 35, comms_temperature = 28, payload_temperature = 25,
              battery_temperature = 22, external_temperature = - 15\<rparr>\<rparr> ok]))"
    by (simp add: generate_power_telemetry_def generate_temperature_telemetry_def Let_def
        store_packet_effect nominal_voltage)
  show ?thesis
    using v t g by (intro conjI) simp_all
qed

text \<open>The Power generator at boot, in the simulated and in the nominal configuration.\<close>

theorem virtual_sensor_ranges_witness:
  "WOKWI wokwi_config \<and> \<not> WOKWI nominal_config \<and>
   (\<exists>h pl ok. trace (generate_power_telemetry wokwi_config (reading 0) boot) =
        trace boot @ [Store_call \<lparr>header = h, payload = Power pl\<rparr> ok] \<and>
      battery_voltage pl = read_virtual_voltage (esp_random (reading 0) 0) \<and>
      31 / 10 \<le> read_virtual_voltage (esp_random (reading 0) 0) \<and>
      read_virtual_voltage (esp_random (reading 0) 0) \<le> 35 / 10) \<and>
   (\<exists>h pl ok. trace (generate_power_telemetry nominal_config (reading 0) boot) =
        trace boot @ [Store_call \<lparr>header = h, payload = Power pl\<rparr> ok] \<and>
      battery_voltage pl = 13841203 / 4194304 \<and> power_telem.battery_temperature pl = 25)"
proof -
  have w: "WOKWI wokwi_config" and n: "\<not> WOKWI nominal_config"
    by (simp_all add: wokwi_config_def nominal_config_def)
  from virtual_sensor_ranges [of "esp_random (reading 0) 0" wokwi_config "reading 0" boot] w
  obtain h pl ok where a:
    "trace (generate_power_telemetry wokwi_config (reading 0) boot) =
        trace boot @ [Store_call \<lparr>header = h, payload = Power pl\<rparr> ok]"
    "battery_voltage pl = read_virtual_voltage (esp_random (reading 0) 0)"
    and r: "31 / 10 \<le> read_virtual_voltage (esp_random (reading 0) 0)"
      "read_virtual_voltage (esp_random (reading 0) 0) \<le> 35 / 10"
    by blast
  from virtual_sensor_ranges [of 0 nominal_config "reading 0" boot] n
  obtain h' pl' ok' where b:
    "trace (generate_power_telemetry nominal_config (reading 0) boot) =
        trace boot @ [Store_call \<lparr>header = h', payload = Power pl'\<rparr> ok']"
    "battery_voltage pl' = 13841203 / 4194304" "power_telem.battery_temperature pl' = 25"
    by blast
  show ?thesis
    using w n a r b by blast
qed

section \<open>Who stores the packets\<close>

lemma other_tasks_store_nothing:
  "store_calls (trace (processor_step s)) = store_calls (trace s)"
  "store_calls (trace (transmitter_step inp s)) = store_calls (trace s)"
proof -
  show "store_calls (trace (processor_step s)) = store_calls (trace s)"
    by (cases "queue s")
       (simp_all add: processor_step_def telemetry_retrieve_packet_def store_calls_append)
  show "store_calls (trace (transmitter_step inp s)) = store_calls (trace s)"
    by (cases "transmitter_at s"; cases "queue s")
       (simp_all add: transmitter_step_def telemetry_retrieve_packet_def
          telemetry_available_packets_def Let_def store_calls_append)
qed

text \<open>
  Claim C7, as the specification states it: a generator returns the packet to its caller
  and does not enqueue it.  The generators are \<^verbatim>\<open>void\<close> functions that call
  \<^verbatim>\<open>telemetry_store_packet\<close> themselves: after the Collector's start-up, with no store
  call made yet and the queue empty, one call of the SystemStatus generator makes one store
  call and leaves one packet in the queue.
\<close>

theorem generator_enqueues_counterexample:
  "collector_at (run eight_slot_config [(Collector, reading 0)] boot) = Collector_system \<and>
   store_calls (trace (run eight_slot_config [(Collector, reading 0)] boot)) = [] \<and>
   telemetry_available_packets (run eight_slot_config [(Collector, reading 0)] boot) = 0 \<and>
   length (store_calls (trace (generate_system_telemetry eight_slot_config (reading 1)
     (run eight_slot_config [(Collector, reading 0)] boot)))) = 1 \<and>
   telemetry_available_packets (generate_system_telemetry eight_slot_config (reading 1)
     (run eight_slot_config [(Collector, reading 0)] boot)) = 1 \<and>
   queue (generate_system_telemetry eight_slot_config (reading 1)
     (run eight_slot_config [(Collector, reading 0)] boot)) \<noteq>
   queue (run eight_slot_config [(Collector, reading 0)] boot)"
  by (simp add: run_simps eight_slot_config_def)

text \<open>
  Claim C7, amended.  Every generator builds one packet of its own kind, with every field
  of the header and of the payload variant of that kind set, and itself hands it to the
  store operation of the queue, once; it returns nothing, and the store operation appends
  the packet to the queue unless the queue is full.  The Collector only invokes the
  generators: each of its steps in the loop is one generator call or the periodic delay,
  and neither its start-up nor the other two tasks make a store call.
\<close>

theorem generators_store_themselves:
  "generate_system_telemetry cfg inp s =
     telemetry_store_packet cfg
       \<lparr>header = \<lparr>type = TELEM_SYSTEM_STATUS, timestamp = xTaskGetTickCount inp,
                  sequence = sequence_number s, priority = 1\<rparr>,
        payload = System
          \<lparr>uptime_seconds = system_uptime s, system_mode = 1, cpu_usage = 0,
           stack_high_water = uxTaskGetStackHighWaterMark inp,
           heap_free = esp_get_free_heap_size inp,
           task_count = uxTaskGetNumberOfTasks inp, error_count = 0\<rparr>\<rparr>
       (s\<lparr>sequence_number := sequence_number s + 1, system_uptime := system_uptime s + 1\<rparr>) \<and>
   generate_power_telemetry cfg inp s =
     telemetry_store_packet cfg
       \<lparr>header = \<lparr>type = TELEM_POWER_DATA, timestamp = xTaskGetTickCount inp,
                  sequence = sequence_number s, priority = 2\<rparr>,
        payload = Power
          \<lparr>battery_voltage =
             (if WOKWI cfg then read_virtual_voltage (esp_random inp 0)
              else f32_round (33 / 10)),
           power_telem.battery_temperature =
             (if WOKWI cfg then f32_to_int (read_virtual_temperature (esp_random inp 1))
              else 25),
           battery_current = f32_round (1 / 10),
           solar_panel_voltage = f32_round 5,
           solar_panel_current = f32_round (1 / 2),
           battery_level = 85 - system_uptime s div 3600,
           power_state = 0\<rparr>\<rparr>
       (s\<lparr>sequence_number := sequence_number s + 1\<rparr>) \<and>
   generate_temperature_telemetry cfg inp s =
     telemetry_store_packet cfg
       \<lparr>header = \<lparr>type = TELEM_TEMPERATURE_DATA, timestamp = xTaskGetTickCount inp,
                  sequence = sequence_number s, priority = 1\<rparr>,
        payload = Temperature
          (if WOKWI cfg then
             \<lparr>obc_temperature = f32_to_int (read_virtual_temperature (esp_random inp 0)),
              comms_temperature =
                f32_to_int (f32_sub (read_virtual_temperature (esp_random inp 1)) 5),
              payload_temperature =
                f32_to_int (f32_add (read_virtual_temperature (esp_random inp 2)) 3),
              battery_temperature = f32_to_int (read_virtual_temperature (esp_random inp 3)),
              external_temperature =
                f32_to_int (f32_sub (read_virtual_temperature (esp_random inp 4)) 10)\<rparr>
           else
             \<lparr>obc_temperature = 35, comms_temperature = 28, payload_temperature = 25,
              battery_temperature = 22, external_temperature = - 15\<rparr>)\<rparr>
       (s\<lparr>sequence_number := sequence_number s + 1\<rparr>) \<and>
   generate_subsystem_telemetry cfg inp s =
     telemetry_store_packet cfg
       \<lparr>header = \<lparr>type = TELEM_COMMUNICATION_STATUS, timestamp = xTaskGetTickCount inp,
                  sequence = sequence_number s, priority = 1\<rparr>,
        payload = Subsystems
          \<lparr>comms_status = 1, adcs_status = 1, payload_status = 1, power_status = 1,
           comms_uptime = system_uptime s, payload_uptime = system_uptime s - 100,
           last_command_id = 37, command_success_rate = 98\<rparr>\<rparr>
       (s\<lparr>sequence_number := sequence_number s + 1\<rparr>) \<and>
   trace (telemetry_store_packet cfg q s') =
     trace s' @ [Store_call q (length (queue s') < queue_capacity cfg)] \<and>
   queue (telemetry_store_packet cfg q s') =
     (if length (queue s') < queue_capacity cfg then queue s' @ [q] else queue s') \<and>
   collector_step cfg inp (s\<lparr>collector_at := Collector_init\<rparr>) =
     (telemetry_storage_init s)\<lparr>collector_at := Collector_system\<rparr> \<and>
   collector_step cfg inp (s\<lparr>collector_at := Collector_system\<rparr>) =
     (generate_system_telemetry cfg inp s)\<lparr>collector_at := Collector_power\<rparr> \<and>
   collector_step cfg inp (s\<lparr>collector_at := Collector_power\<rparr>) =
     (generate_power_telemetry cfg inp s)\<lparr>collector_at := Collector_temperature\<rparr> \<and>
   collector_step cfg inp (s\<lparr>collector_at := Collector_temperature\<rparr>) =
     (generate_temperature_telemetry cfg inp s)\<lparr>collector_at := Collector_subsystem\<rparr> \<and>
   collector_step cfg inp (s\<lparr>collector_at := Collector_subsystem\<rparr>) =
     (generate_subsystem_telemetry cfg inp s)\<lparr>collector_at := Collector_delay\<rparr> \<and>
   collector_step cfg inp (s\<lparr>collector_at := Collector_delay\<rparr>) =
     s\<lparr>collector_at := Collector_system, trace := trace s @ [Delay_until Collector 5000]\<rparr> \<and>
   store_calls (trace (telemetry_storage_init s)) = store_calls (trace s) \<and>
   store_calls (trace (processor_step s)) = store_calls (trace s) \<and>
   store_calls (trace (transmitter_step inp s)) = store_calls (trace s)"
proof -
  have g: "generate_system_telemetry cfg inp (s\<lparr>collector_at := a\<rparr>) =
      (generate_system_telemetry cfg inp s)\<lparr>collector_at := a\<rparr>"
    "generate_power_telemetry cfg inp (s\<lparr>collector_at := a\<rparr>) =
      (generate_power_telemetry cfg inp s)\<lparr>collector_at := a\<rparr>"
    "generate_temperature_telemetry cfg inp (s\<lparr>collector_at := a\<rparr>) =
      (generate_temperature_telemetry cfg inp s)\<lparr>collector_at := a\<rparr>"
    "generate_subsystem_telemetry cfg inp (s\<lparr>collector_at := a\<rparr>) =
      (generate_subsystem_telemetry cfg inp s)\<lparr>collector_at := a\<rparr>" for a
    by (simp_all add: generator_defs Let_def telemetry_store_packet_def)
  have c: "collector_step cfg inp (s\<lparr>collector_at := Collector_init\<rparr>) =
     (telemetry_storage_init s)\<lparr>collector_at := Collector_system\<rparr>"
   "collector_step cfg inp (s\<lparr>collector_at := Collector_system\<rparr>) =
     (generate_system_telemetry cfg inp s)\<lparr>collector_at := Collector_power\<rparr>"
   "collector_step cfg inp (s\<lparr>collector_at := Collector_power\<rparr>) =
     (generate_power_telemetry cfg inp s)\<lparr>collector_at := Collector_temperature\<rparr>"
   "collector_step cfg inp (s\<lparr>collector_at := Collector_temperature\<rparr>) =
     (generate_temperature_telemetry cfg inp s)\<lparr>collector_at := Collector_subsystem\<rparr>"
   "collector_step cfg inp (s\<lparr>collector_at := Collector_subsystem\<rparr>) =
     (generate_subsystem_telemetry cfg inp s)\<lparr>collector_at := Collector_delay\<rparr>"
   "collector_step cfg inp (s\<lparr>collector_at := Collector_delay\<rparr>) =
     s\<lparr>collector_at := Collector_system, trace := trace s @ [Delay_until Collector 5000]\<rparr>"
    by (simp_all add: collector_step_at g telemetry_storage_init_def)
  have i: "store_calls (trace (telemetry_storage_init s)) = store_calls (trace s)"
    by (simp add: telemetry_storage_init_def store_calls_append)
  have e:
    "generate_system_telemetry cfg inp s =
     telemetry_store_packet cfg
       \<lparr>header = \<lparr>type = TELEM_SYSTEM_STATUS, timestamp = xTaskGetTickCount inp,
                  sequence = sequence_number s, priority = 1\<rparr>,
        payload = System
          \<lparr>uptime_seconds = system_uptime s, system_mode = 1, cpu_usage = 0,
           stack_high_water = uxTaskGetStackHighWaterMark inp,
           heap_free = esp_get_free_heap_size inp,
           task_count = uxTaskGetNumberOfTasks inp, error_count = 0\<rparr>\<rparr>
       (s\<lparr>sequence_number := sequence_number s + 1, system_uptime := system_uptime s + 1\<rparr>)"
    "generate_power_telemetry cfg inp s =
     telemetry_store_packet cfg
       \<lparr>header = \<lparr>type = TELEM_POWER_DATA, timestamp = xTaskGetTickCount inp,
                  sequence = sequence_number s, priority = 2\<rparr>,
        payload = Power
          \<lparr>battery_voltage =
             (if WOKWI cfg then read_virtual_voltage (esp_random inp 0)
              else f32_round (33 / 10)),
           power_telem.battery_temperature =
             (if WOKWI cfg then f32_to_int (read_virtual_temperature (esp_random inp 1))
              else 25),
           battery_current = f32_round (1 / 10),
           solar_panel_voltage = f32_round 5,
           solar_panel_current = f32_round (1 / 2),
           battery_level = 85 - system_uptime s div 3600,
           power_state = 0\<rparr>\<rparr>
       (s\<lparr>sequence_number := sequence_number s + 1\<rparr>)"
    "generate_temperature_telemetry cfg inp s =
     telemetry_store_packet cfg
       \<lparr>header = \<lparr>type = TELEM_TEMPERATURE_DATA, timestamp = xTaskGetTickCount inp,
                  sequence = sequence_number s, priority = 1\<rparr>,
        payload = Temperature
          (if WOKWI cfg then
             \<lparr>obc_temperature = f32_to_int (read_virtual_temperature (esp_random inp 0)),
              comms_temperature =
                f32_to_int (f32_sub (read_virtual_temperature (esp_random inp 1)) 5),
              payload_temperature =
                f32_to_int (f32_add (read_virtual_temperature (esp_random inp 2)) 3),
              battery_temperature = f32_to_int (read_virtual_temperature (esp_random inp 3)),
              external_temperature =
                f32_to_int (f32_sub (read_virtual_temperature (esp_random inp 4)) 10)\<rparr>
           else
             \<lparr>obc_temperature = 35, comms_temperature = 28, payload_temperature = 25,
              battery_temperature = 22, external_temperature = - 15\<rparr>)\<rparr>
       (s\<lparr>sequence_number := sequence_number s + 1\<rparr>)"
    "generate_subsystem_telemetry cfg inp s =
     telemetry_store_packet cfg
       \<lparr>header = \<lparr>type = TELEM_COMMUNICATION_STATUS, timestamp = xTaskGetTickCount inp,
                  sequence = sequence_number s, priority = 1\<rparr>,
        payload = Subsystems
          \<lparr>comms_status = 1, adcs_status = 1, payload_status = 1, power_status = 1,
           comms_uptime = system_uptime s, payload_uptime = system_uptime s - 100,
           last_command_id = 37, command_success_rate = 98\<rparr>\<rparr>
       (s\<lparr>sequence_number := sequence_number s + 1\<rparr>)"
    by (simp_all add: generator_defs Let_def)
  show ?thesis
    by (intro conjI e store_packet_effect c i other_tasks_store_nothing)
qed

end
